theory Spec2Isabelle
  imports Complex_Main "HOL-Library.Word" "HOL-Library.Char_ord" "HOL-Library.List_Lexorder"
    "HOL-Library.Multiset"
begin

section \<open>JavaScript strings\<close>

text \<open>
  Protocol text (header names and values, URLs, XML, configuration fields) is a
  \<open>string\<close>: a list of characters with codes below 256. File names come from the user
  and may hold any UTF-16 code unit, so they are lists of 16-bit words; \<open>units\<close>
  embeds the first kind into the second.
\<close>

datatype js_error = Error string | TypeError string | URIError string

definition units :: "string \<Rightarrow> 16 word list" where
  "units s = map (\<lambda>c. of_nat (of_char c)) s"

definition nl :: string where
  "nl = [CHR 0x0A]"

definition dq :: string where
  "dq = [CHR 0x22]"

text \<open>A non-negative integer in a template literal: its decimal digits.\<close>

definition digitChar :: "nat \<Rightarrow> char" where
  "digitChar d = char_of (48 + d)"

fun showNat :: "nat \<Rightarrow> string" where
  "showNat n = (if n < 10 then [digitChar n] else showNat (n div 10) @ [digitChar (n mod 10)])"

declare showNat.simps [simp del]

text \<open>\<open>Array.prototype.join\<close>\<close>

fun join :: "string \<Rightarrow> string list \<Rightarrow> string" where
  "join sep [] = []"
| "join sep [x] = x"
| "join sep (x # y # ys) = x @ sep @ join sep (y # ys)"

text \<open>
  \<open>String.prototype.toLowerCase\<close> on characters below 256: the letters A to Z and the
  Latin-1 capitals 0xC0 to 0xDE (0xD7, the multiplication sign, apart) move up by 32.
\<close>

definition lowerChar :: "char \<Rightarrow> char" where
  "lowerChar c =
     (let n = (of_char c :: nat) in
      if (0x41 \<le> n \<and> n \<le> 0x5A) \<or> (0xC0 \<le> n \<and> n \<le> 0xDE \<and> n \<noteq> 0xD7)
      then char_of (n + 32) else c)"

definition toLowerCase :: "string \<Rightarrow> string" where
  "toLowerCase s = map lowerChar s"

text \<open>
  \<open>String.prototype.trim\<close>: white space and line terminators go from both ends (below
  256 these are tab, line feed, vertical tab, form feed, carriage return, space and the
  no-break space).
\<close>

definition isTrimChar :: "char \<Rightarrow> bool" where
  "isTrimChar c = ((of_char c :: nat) \<in> {0x09, 0x0A, 0x0B, 0x0C, 0x0D, 0x20, 0xA0})"

definition trim :: "string \<Rightarrow> string" where
  "trim s = rev (dropWhile isTrimChar (rev (dropWhile isTrimChar s)))"

subsection \<open>UTF-8 and percent-encoding\<close>

definition utf8 :: "nat \<Rightarrow> 8 word list" where
  "utf8 v =
     (if v < 0x80 then [of_nat v]
      else if v < 0x800 then [of_nat (0xC0 + v div 64), of_nat (0x80 + v mod 64)]
      else if v < 0x10000 then
        [of_nat (0xE0 + v div 4096), of_nat (0x80 + (v div 64) mod 64), of_nat (0x80 + v mod 64)]
      else
        [of_nat (0xF0 + v div 262144), of_nat (0x80 + (v div 4096) mod 64),
         of_nat (0x80 + (v div 64) mod 64), of_nat (0x80 + v mod 64)])"

definition isHighSurrogate :: "16 word \<Rightarrow> bool" where
  "isHighSurrogate c = (0xD800 \<le> unat c \<and> unat c \<le> 0xDBFF)"

definition isLowSurrogate :: "16 word \<Rightarrow> bool" where
  "isLowSurrogate c = (0xDC00 \<le> unat c \<and> unat c \<le> 0xDFFF)"

definition surrogatePair :: "16 word \<Rightarrow> 16 word \<Rightarrow> nat" where
  "surrogatePair c d = (unat c - 0xD800) * 0x400 + (unat d - 0xDC00) + 0x10000"

text \<open>
  \<open>TextEncoder.encode\<close>: UTF-8, an unpaired surrogate becoming U+FFFD.
\<close>

fun textEncode :: "16 word list \<Rightarrow> 8 word list" where
  "textEncode [] = []"
| "textEncode [c] = (if isHighSurrogate c \<or> isLowSurrogate c then utf8 0xFFFD else utf8 (unat c))"
| "textEncode (c # d # ds) =
     (if isHighSurrogate c \<and> isLowSurrogate d then utf8 (surrogatePair c d) @ textEncode ds
      else if isHighSurrogate c \<or> isLowSurrogate c then utf8 0xFFFD @ textEncode (d # ds)
      else utf8 (unat c) @ textEncode (d # ds))"

definition encodeText :: "string \<Rightarrow> 8 word list" where
  "encodeText s = textEncode (units s)"

definition hexDigitUpper :: "nat \<Rightarrow> char" where
  "hexDigitUpper d = (if d < 10 then char_of (48 + d) else char_of (55 + d))"

definition hexDigitLower :: "nat \<Rightarrow> char" where
  "hexDigitLower d = (if d < 10 then char_of (48 + d) else char_of (87 + d))"

definition percentByte :: "8 word \<Rightarrow> string" where
  "percentByte b = [CHR ''%'', hexDigitUpper (unat b div 16), hexDigitUpper (unat b mod 16)]"

definition percentEncode :: "nat \<Rightarrow> string" where
  "percentEncode v = concat (map percentByte (utf8 v))"

text \<open>
  The characters \<open>encodeURIComponent\<close> leaves alone: letters, digits and
  \<open>- _ . ! ~ * ' ( )\<close>.
\<close>

definition uriUnreserved :: "16 word \<Rightarrow> bool" where
  "uriUnreserved c =
     (let n = unat c in
      (0x41 \<le> n \<and> n \<le> 0x5A) \<or> (0x61 \<le> n \<and> n \<le> 0x7A) \<or> (0x30 \<le> n \<and> n \<le> 0x39) \<or>
      n \<in> {0x2D, 0x5F, 0x2E, 0x21, 0x7E, 0x2A, 0x27, 0x28, 0x29})"

definition prepend :: "string \<Rightarrow> js_error + string \<Rightarrow> js_error + string" where
  "prepend s r = (case r of Inl e \<Rightarrow> Inl e | Inr t \<Rightarrow> Inr (s @ t))"

text \<open>
  \<open>encodeURIComponent\<close> (ECMAScript's Encode): an unreserved unit is copied; any other
  code point is written as the percent-escapes of its UTF-8 octets; a low surrogate with no
  high one before it, or a high surrogate with no low one after it, throws URIError.
\<close>

fun encodeURIComponent :: "16 word list \<Rightarrow> js_error + string" where
  "encodeURIComponent [] = Inr []"
| "encodeURIComponent [c] =
     (if uriUnreserved c then Inr [char_of (unat c)]
      else if isLowSurrogate c \<or> isHighSurrogate c then Inl (URIError ''URI malformed'')
      else Inr (percentEncode (unat c)))"
| "encodeURIComponent (c # d # ds) =
     (if uriUnreserved c then prepend [char_of (unat c)] (encodeURIComponent (d # ds))
      else if isLowSurrogate c then Inl (URIError ''URI malformed'')
      else if \<not> isHighSurrogate c then prepend (percentEncode (unat c)) (encodeURIComponent (d # ds))
      else if \<not> isLowSurrogate d then Inl (URIError ''URI malformed'')
      else prepend (percentEncode (surrogatePair c d)) (encodeURIComponent ds))"

text \<open>
  On protocol text (no surrogates) the encoding cannot throw; \<open>uriEncode\<close> is its result
  there (lemma \<open>encodeURIComponent_units\<close> below).
\<close>

definition uriEncode :: "string \<Rightarrow> string" where
  "uriEncode s = (case encodeURIComponent (units s) of Inr t \<Rightarrow> t | Inl e \<Rightarrow> [])"

section \<open>Errors, requests and the world\<close>

text \<open>
  The service module (r2Service) talks to the object store through \<open>fetch\<close> and
  \<open>XMLHttpRequest\<close>, sleeps in its retry helper and writes to the console. These
  effects are made explicit: an operation takes the world and returns its outcome with the
  new world. A JavaScript exception (a rejected promise) is the left summand.
\<close>

datatype payload = Text string | Buffer "8 word list"

record request =
  reqMethod :: string
  reqUrl :: string
  reqHeaders :: "(string \<times> string) list"
  reqBody :: "payload option"

datatype response =
    NetworkFailure
  | Response (status: nat) (statusText: string) (etagHeader: "string option") (responseText: string)

record world =
  sent :: "request list"
  slept :: "int list"
  console :: "(string \<times> js_error) list"

type_synonym 'a io = "world \<Rightarrow> (js_error + 'a) \<times> world"

text \<open>The network: what comes back for a request, given everything sent before it.\<close>

type_synonym network = "request list \<Rightarrow> request \<Rightarrow> response"

definition transmit :: "network \<Rightarrow> request \<Rightarrow> world \<Rightarrow> response \<times> world" where
  "transmit net req w = (net (sent w) req, w\<lparr>sent := sent w @ [req]\<rparr>)"

text \<open>\<open>await new Promise(resolve => setTimeout(resolve, delay))\<close>\<close>

definition sleep :: "int \<Rightarrow> world \<Rightarrow> world" where
  "sleep delay w = w\<lparr>slept := slept w @ [delay]\<rparr>"

definition consoleError :: "string \<Rightarrow> js_error \<Rightarrow> world \<Rightarrow> world" where
  "consoleError msg err w = w\<lparr>console := console w @ [(msg, err)]\<rparr>"

text \<open>The world before anything has been sent.\<close>

definition initialWorld :: world where
  "initialWorld = \<lparr>sent = [], slept = [], console = []\<rparr>"

section \<open>The platform\<close>

text \<open>
  What the module takes from its host and does not define: the SHA-256 digest and the
  HMAC signature of \<open>crypto.subtle\<close> (assumed present: the module throws at once where
  it is not), the DOM parser that finds the text of the first \<open>UploadId\<close> element, the
  clock, \<open>Math.random\<close> and the stored configuration. The clock and the random source
  are read at a logical time, the number of requests and sleeps so far.
\<close>

record R2Config =
  accountId :: string
  accessKeyId :: string
  secretAccessKey :: string
  bucketName :: string
  publicUrl :: "string option"

record platform =
  digest :: "8 word list \<Rightarrow> 8 word list"
  hmacSign :: "8 word list \<Rightarrow> 8 word list \<Rightarrow> 8 word list"
  uploadIdText :: "string \<Rightarrow> string option"
  toISOString :: "nat \<Rightarrow> string"
  randomBase36 :: "nat \<Rightarrow> string"
  storedConfig :: "R2Config option"

definition tick :: "world \<Rightarrow> nat" where
  "tick w = length (sent w) + length (slept w)"

text \<open>\<open>getR2Config\<close>: the stored configuration, or null.\<close>

definition getR2Config :: "platform \<Rightarrow> R2Config option" where
  "getR2Config P = storedConfig P"

section \<open>Hashing primitives\<close>

definition hexByte :: "8 word \<Rightarrow> string" where
  "hexByte b = [hexDigitLower (unat b div 16), hexDigitLower (unat b mod 16)]"

definition toHex :: "8 word list \<Rightarrow> string" where
  "toHex bs = concat (map hexByte bs)"

definition sha256 :: "platform \<Rightarrow> payload \<Rightarrow> string" where
  "sha256 P data = toHex (digest P (case data of Text s \<Rightarrow> encodeText s | Buffer b \<Rightarrow> b))"

definition hmacSha256 :: "platform \<Rightarrow> 8 word list \<Rightarrow> string \<Rightarrow> string" where
  "hmacSha256 P key data = toHex (hmacSign P key (encodeText data))"

definition hmacSha256Buffer :: "platform \<Rightarrow> 8 word list \<Rightarrow> string \<Rightarrow> 8 word list" where
  "hmacSha256Buffer P key data = hmacSign P key (encodeText data)"

definition getSignatureKey :: "platform \<Rightarrow> string \<Rightarrow> string \<Rightarrow> string \<Rightarrow> string \<Rightarrow> 8 word list" where
  "getSignatureKey P key dateStamp regionName serviceName =
     (let kDate = hmacSha256Buffer P (encodeText (''AWS4'' @ key)) dateStamp;
          kRegion = hmacSha256Buffer P kDate regionName;
          kService = hmacSha256Buffer P kRegion serviceName;
          kSigning = hmacSha256Buffer P kService ''aws4_request''
      in kSigning)"

text \<open>
  \<open>getAmzDate\<close>: the ISO time with every \<open>:\<close> and \<open>-\<close> and the milliseconds
  (a dot and three digits) taken out.
\<close>

definition isDigit :: "char \<Rightarrow> bool" where
  "isDigit c = (48 \<le> (of_char c :: nat) \<and> (of_char c :: nat) \<le> 57)"

fun stripDateMarks :: "string \<Rightarrow> string" where
  "stripDateMarks [] = []"
| "stripDateMarks (c # cs) =
     (if c = CHR '':'' \<or> c = CHR ''-'' then stripDateMarks cs
      else if c = CHR ''.'' \<and> 3 \<le> length cs \<and> list_all isDigit (take 3 cs)
        then stripDateMarks (drop 3 cs)
      else c # stripDateMarks cs)"

definition getAmzDate :: "platform \<Rightarrow> nat \<Rightarrow> string" where
  "getAmzDate P t = stripDateMarks (toISOString P t)"

section \<open>Canonical request and signature\<close>

text \<open>
  A \<open>Record<string, string>\<close> is an association list in insertion order, its keys
  distinct. \<open>Object.keys(headers).sort()\<close> sorts the keys as written, by code unit;
  lower-casing comes after the sort. \<open>headers['X-Amz-Date']\<close> is looked up as written,
  and \<open>date.substr\<close> throws a TypeError when it is missing.
\<close>

definition valueOf :: "(string \<times> string) list \<Rightarrow> string \<Rightarrow> string" where
  "valueOf obj key = (case map_of obj key of Some v \<Rightarrow> v | None \<Rightarrow> [])"

definition canonicalHeadersOf :: "(string \<times> string) list \<Rightarrow> string" where
  "canonicalHeadersOf headers =
     concat (map (\<lambda>key. toLowerCase key @ '':'' @ trim (valueOf headers key) @ nl)
       (sort (map fst headers)))"

definition signedHeadersOf :: "(string \<times> string) list \<Rightarrow> string" where
  "signedHeadersOf headers = join '';'' (map toLowerCase (sort (map fst headers)))"

definition canonicalQueryStringOf :: "(string \<times> string) list \<Rightarrow> string" where
  "canonicalQueryStringOf queryParams =
     join ''&'' (map (\<lambda>key. uriEncode key @ ''='' @ uriEncode (valueOf queryParams key))
       (sort (map fst queryParams)))"

definition createAwsSignature ::
  "platform \<Rightarrow> string \<Rightarrow> string \<Rightarrow> (string \<times> string) list \<Rightarrow> R2Config \<Rightarrow> payload \<Rightarrow>
   (string \<times> string) list \<Rightarrow> js_error + string" where
  "createAwsSignature P method path headers config payload queryParams =
     (let region = ''auto'';
          service = ''s3'';
          canonicalHeaders = canonicalHeadersOf headers;
          signedHeaders = signedHeadersOf headers;
          canonicalQueryString = canonicalQueryStringOf queryParams;
          payloadHash = sha256 P payload;
          canonicalRequest = method @ nl @ path @ nl @ canonicalQueryString @ nl @
            canonicalHeaders @ nl @ signedHeaders @ nl @ payloadHash
      in case map_of headers ''X-Amz-Date'' of
           None \<Rightarrow> Inl (TypeError ''Cannot read properties of undefined (reading substr)'')
         | Some date \<Rightarrow>
             (let dateStamp = take 8 date;
                  credentialScope = dateStamp @ ''/'' @ region @ ''/'' @ service @ ''/aws4_request'';
                  canonicalRequestHash = sha256 P (Text canonicalRequest);
                  stringToSign = ''AWS4-HMAC-SHA256'' @ nl @ date @ nl @ credentialScope @ nl @
                    canonicalRequestHash;
                  signingKey = getSignatureKey P (secretAccessKey config) dateStamp region service;
                  signature = hmacSha256 P signingKey stringToSign
              in Inr (''AWS4-HMAC-SHA256 Credential='' @ accessKeyId config @ ''/'' @
                   credentialScope @ '', SignedHeaders='' @ signedHeaders @ '', Signature='' @
                   signature)))"

section \<open>Presigned URL generator\<close>

text \<open>
  \<open>if (config.publicUrl)\<close>: an absent or empty public URL is falsy.
  \<open>replace(/\/$/, '')\<close> removes one slash at the very end.
\<close>

definition truthy :: "string option \<Rightarrow> bool" where
  "truthy v = (case v of None \<Rightarrow> False | Some s \<Rightarrow> s \<noteq> [])"

definition dropTrailingSlash :: "string \<Rightarrow> string" where
  "dropTrailingSlash u = (if u \<noteq> [] \<and> last u = CHR ''/'' then butlast u else u)"

definition endpointHost :: "R2Config \<Rightarrow> string" where
  "endpointHost config = accountId config @ ''.r2.cloudflarestorage.com''"

definition presignedQuery :: "R2Config \<Rightarrow> string \<Rightarrow> nat \<Rightarrow> string" where
  "presignedQuery config amzDate expiresIn =
     (let credentialScope = take 8 amzDate @ ''/auto/s3/aws4_request'';
          credential = uriEncode (accessKeyId config @ ''/'' @ credentialScope)
      in join ''&''
          [''X-Amz-Algorithm=AWS4-HMAC-SHA256'',
           ''X-Amz-Credential='' @ credential,
           ''X-Amz-Date='' @ amzDate,
           ''X-Amz-Expires='' @ showNat expiresIn,
           ''X-Amz-SignedHeaders=host''])"

definition presignedCanonicalRequest :: "R2Config \<Rightarrow> string \<Rightarrow> string \<Rightarrow> nat \<Rightarrow> string" where
  "presignedCanonicalRequest config fileName amzDate expiresIn =
     (let path = ''/'' @ bucketName config @ ''/'' @ fileName;
          queryParams = presignedQuery config amzDate expiresIn;
          canonicalHeaders = ''host:'' @ endpointHost config @ nl;
          signedHeaders = ''host'';
          payloadHash = ''UNSIGNED-PAYLOAD''
      in ''GET'' @ nl @ path @ nl @ queryParams @ nl @ canonicalHeaders @ nl @ signedHeaders @ nl @
         payloadHash)"

definition presignedGetUrl :: "platform \<Rightarrow> string \<Rightarrow> R2Config \<Rightarrow> nat \<Rightarrow> nat \<Rightarrow> string" where
  "presignedGetUrl P fileName config expiresIn t =
     (let endpoint = ''https://'' @ endpointHost config;
          path = ''/'' @ bucketName config @ ''/'' @ fileName;
          region = ''auto'';
          service = ''s3'';
          amzDate = getAmzDate P t;
          dateStamp = take 8 amzDate;
          credentialScope = dateStamp @ ''/'' @ region @ ''/'' @ service @ ''/aws4_request'';
          queryParams = presignedQuery config amzDate expiresIn;
          canonicalRequest = presignedCanonicalRequest config fileName amzDate expiresIn;
          canonicalRequestHash = sha256 P (Text canonicalRequest);
          stringToSign = ''AWS4-HMAC-SHA256'' @ nl @ amzDate @ nl @ credentialScope @ nl @
            canonicalRequestHash;
          signingKey = getSignatureKey P (secretAccessKey config) dateStamp region service;
          signature = hmacSha256 P signingKey stringToSign
      in endpoint @ path @ ''?'' @ queryParams @ ''&X-Amz-Signature='' @ signature)"

text \<open>The third argument is optional in the source: when it is left out, 600 seconds.\<close>

definition generatePresignedUrl ::
  "platform \<Rightarrow> string \<Rightarrow> R2Config \<Rightarrow> nat option \<Rightarrow> nat \<Rightarrow> string" where
  "generatePresignedUrl P fileName config expiresInArg t =
     (let expiresIn = (case expiresInArg of None \<Rightarrow> 600 | Some n \<Rightarrow> n) in
      case publicUrl config of
        None \<Rightarrow> presignedGetUrl P fileName config expiresIn t
      | Some u \<Rightarrow>
          if u \<noteq> [] then dropTrailingSlash u @ ''/'' @ fileName
          else presignedGetUrl P fileName config expiresIn t)"

section \<open>Files and the sampling digest\<close>

record File =
  file_name :: "16 word list"
  file_type :: string
  file_bytes :: "8 word list"

definition file_size :: "File \<Rightarrow> nat" where
  "file_size f = length (file_bytes f)"

text \<open>\<open>Blob.slice(start, end)\<close> for non-negative bounds: both are clamped to the size.\<close>

definition slice :: "nat \<Rightarrow> nat \<Rightarrow> 8 word list \<Rightarrow> 8 word list" where
  "slice start end bs = take (end - start) (drop start bs)"

definition calculatePartialHash :: "platform \<Rightarrow> File \<Rightarrow> string" where
  "calculatePartialHash P f =
     (let chunkSize = 1024 * 1024;
          first = [slice 0 chunkSize (file_bytes f)];
          middle = file_size f div 2;
          mid = (if middle > chunkSize then [slice middle (middle + chunkSize) (file_bytes f)] else []);
          lst = (if file_size f > 2 * chunkSize
                 then [drop (file_size f - chunkSize) (file_bytes f)] else []);
          chunks = first @ mid @ lst;
          metadata = textEncode (file_name f @ units (''-'' @ showNat (file_size f)));
          combined = metadata @ concat chunks
      in sha256 P (Buffer combined))"

definition calculateFileHash :: "platform \<Rightarrow> File \<Rightarrow> string" where
  "calculateFileHash P f =
     (if file_size f > 50 * 1024 * 1024 then calculatePartialHash P f
      else sha256 P (Buffer (file_bytes f)))"

section \<open>Object keys\<close>

text \<open>
  The regular expressions of \<open>sanitizeFileName\<close>. \<open>\s\<close> is ECMAScript's white space and
  line terminators. Replacing every match of \<open>\s+\<close>, \<open>\.{2,}\<close> or \<open>-{2,}\<close> by one
  character turns each maximal run into that character (\<open>squeeze\<close>).
\<close>

definition isWhiteSpace :: "16 word \<Rightarrow> bool" where
  "isWhiteSpace c =
     (let n = unat c in
      n \<in> {0x09, 0x0A, 0x0B, 0x0C, 0x0D, 0x20, 0xA0, 0x1680, 0x2028, 0x2029, 0x202F, 0x205F,
           0x3000, 0xFEFF} \<or> (0x2000 \<le> n \<and> n \<le> 0x200A))"

definition isUnsafe :: "16 word \<Rightarrow> bool" where
  "isUnsafe c =
     (let n = unat c in
      n \<in> {0x2F, 0x5C, 0x3A, 0x2A, 0x3F, 0x22, 0x3C, 0x3E, 0x7C} \<or> n \<le> 0x1F \<or> n = 0x7F)"

definition isDotOrHyphen :: "16 word \<Rightarrow> bool" where
  "isDotOrHyphen c = (c = 0x2E \<or> c = 0x2D)"

fun squeeze :: "('a \<Rightarrow> bool) \<Rightarrow> 'a \<Rightarrow> 'a list \<Rightarrow> 'a list" where
  "squeeze p x [] = []"
| "squeeze p x [c] = (if p c then [x] else [c])"
| "squeeze p x (c # d # ds) =
     (if p c then (if p d then squeeze p x (d # ds) else x # squeeze p x (d # ds))
      else c # squeeze p x (d # ds))"

definition sanitizeFileName :: "16 word list \<Rightarrow> js_error + string" where
  "sanitizeFileName fileName =
     (let noSpaces = squeeze isWhiteSpace 0x2D fileName;
          safeChars = filter (\<lambda>c. \<not> isUnsafe c) noSpaces;
          result = squeeze (\<lambda>c. c = 0x2D) 0x2D (squeeze (\<lambda>c. c = 0x2E) 0x2E safeChars);
          trimmed = rev (dropWhile isDotOrHyphen (rev (dropWhile isDotOrHyphen result)));
          finalName = (if trimmed = [] then units ''unnamed-file'' else trimmed)
      in encodeURIComponent finalName)"

text \<open>
  \<open>hashFileName\<close>: fourteen digits of the time, six characters of \<open>Math.random\<close> in
  base 36, and the extension (from the last dot on).
\<close>

definition extensionOf :: "string \<Rightarrow> string" where
  "extensionOf fileName =
     (if CHR ''.'' \<in> set fileName
      then CHR ''.'' # rev (takeWhile (\<lambda>c. c \<noteq> CHR ''.'') (rev fileName)) else [])"

definition hashFileName :: "platform \<Rightarrow> string \<Rightarrow> nat \<Rightarrow> string" where
  "hashFileName P fileName t =
     (let extension = extensionOf fileName;
          timestamp = take 14 (filter (\<lambda>c. c \<notin> set ''-:T.'') (toISOString P t));
          random = take 6 (drop 2 (randomBase36 P t))
      in timestamp @ ''-'' @ random @ extension)"

section \<open>Retry policy\<close>

text \<open>
  \<open>retry(fn, retries = 3, delay = 1000, backoff = 2)\<close>: run \<open>fn\<close>; when it throws and
  \<open>retries <= 0\<close> rethrow, otherwise sleep \<open>delay\<close> and recurse with
  \<open>retries - 1\<close> and \<open>delay * backoff\<close>.
\<close>

function retry :: "'a io \<Rightarrow> int \<Rightarrow> int \<Rightarrow> int \<Rightarrow> 'a io" where
  "retry fn retries delay backoff w =
     (case fn w of
        (Inr v, w') \<Rightarrow> (Inr v, w')
      | (Inl err, w') \<Rightarrow>
          if retries \<le> 0 then (Inl err, w')
          else retry fn (retries - 1) (delay * backoff) backoff (sleep delay w'))"
  by pat_completeness auto
termination
  by (relation "measure (\<lambda>(fn, retries, delay, backoff, w). nat retries)") auto

declare retry.simps [simp del]

text \<open>The call \<open>retry(fn)\<close> with every default.\<close>

definition retryDefault :: "'a io \<Rightarrow> 'a io" where
  "retryDefault fn = retry fn 3 1000 2"

section \<open>Network operations\<close>

text \<open>
  \<open>fetch\<close> rejects with a TypeError when the network fails and resolves with the
  response otherwise, whatever its status; \<open>response.ok\<close> is a status from 200 to 299.
  The XMLHttpRequest wrappers reject on \<open>onerror\<close> and on a status outside 200 to 299.
  The progress callback of the two uploads only reports; it is modelled on its own in the
  section on progress.
\<close>

definition ok :: "nat \<Rightarrow> bool" where
  "ok st = (200 \<le> st \<and> st < 300)"

definition uploadSmallFile :: "network \<Rightarrow> string \<Rightarrow> (string \<times> string) list \<Rightarrow> 8 word list \<Rightarrow> unit io" where
  "uploadSmallFile net url headers body w =
     (case transmit net \<lparr>reqMethod = ''PUT'', reqUrl = url, reqHeaders = headers,
                          reqBody = Some (Buffer body)\<rparr> w of
        (NetworkFailure, w') \<Rightarrow> (Inl (Error ''Network error during upload''), w')
      | (Response st txt etag body, w') \<Rightarrow>
          if 200 \<le> st \<and> st < 300 then (Inr (), w')
          else (Inl (Error (''Upload failed: '' @ showNat st @ '' '' @ txt)), w'))"

definition initiateMultipartUpload :: "platform \<Rightarrow> network \<Rightarrow> R2Config \<Rightarrow> string \<Rightarrow> string \<Rightarrow> string io" where
  "initiateMultipartUpload P net config fileName contentType w =
     (let endpoint = ''https://'' @ endpointHost config;
          path = ''/'' @ bucketName config @ ''/'' @ fileName;
          url = endpoint @ path @ ''?uploads'';
          amzDate = getAmzDate P (tick w);
          headers = [(''Host'', endpointHost config), (''X-Amz-Date'', amzDate),
                     (''Content-Type'', contentType),
                     (''X-Amz-Content-Sha256'', sha256 P (Text []))]
      in case createAwsSignature P ''POST'' path headers config (Text []) [(''uploads'', [])] of
           Inl e \<Rightarrow> (Inl e, w)
         | Inr authorization \<Rightarrow>
             (case transmit net \<lparr>reqMethod = ''POST'', reqUrl = url,
                     reqHeaders = headers @ [(''Authorization'', authorization)],
                     reqBody = None\<rparr> w of
                (NetworkFailure, w') \<Rightarrow> (Inl (TypeError ''Failed to fetch''), w')
              | (Response st txt etag text, w') \<Rightarrow>
                  if \<not> ok st
                  then (Inl (Error (''Failed to initiate multipart upload: '' @ txt)), w')
                  else (case uploadIdText P text of
                          None \<Rightarrow> (Inl (Error ''Failed to get UploadId from response''), w')
                        | Some uploadId \<Rightarrow>
                            if uploadId = []
                            then (Inl (Error ''Failed to get UploadId from response''), w')
                            else (Inr uploadId, w'))))"

definition uploadPart ::
  "platform \<Rightarrow> network \<Rightarrow> R2Config \<Rightarrow> string \<Rightarrow> string \<Rightarrow> nat \<Rightarrow> 8 word list \<Rightarrow> string io" where
  "uploadPart P net config fileName uploadId partNumber body w =
     (let endpoint = ''https://'' @ endpointHost config;
          path = ''/'' @ bucketName config @ ''/'' @ fileName;
          queryParams = [(''partNumber'', showNat partNumber), (''uploadId'', uploadId)];
          url = endpoint @ path @ ''?partNumber='' @ showNat partNumber @ ''&uploadId='' @ uploadId;
          amzDate = getAmzDate P (tick w);
          contentHash = sha256 P (Buffer body);
          headers = [(''Host'', endpointHost config), (''X-Amz-Date'', amzDate),
                     (''X-Amz-Content-Sha256'', contentHash)]
      in case createAwsSignature P ''PUT'' path headers config (Buffer body) queryParams of
           Inl e \<Rightarrow> (Inl e, w)
         | Inr authorization \<Rightarrow>
             (case transmit net \<lparr>reqMethod = ''PUT'', reqUrl = url,
                     reqHeaders = headers @ [(''Authorization'', authorization)],
                     reqBody = Some (Buffer body)\<rparr> w of
                (NetworkFailure, w') \<Rightarrow> (Inl (Error ''Network error during part upload''), w')
              | (Response st txt etag text, w') \<Rightarrow>
                  if 200 \<le> st \<and> st < 300
                  then (case etag of
                          None \<Rightarrow> (Inl (Error ''ETag not found in response''), w')
                        | Some e \<Rightarrow>
                            if e = [] then (Inl (Error ''ETag not found in response''), w')
                            else (Inr e, w'))
                  else (Inl (Error (''Part upload failed: '' @ showNat st @ '' '' @ txt)), w')))"

record part =
  PartNumber :: nat
  ETag :: string

definition partXml :: "part \<Rightarrow> string" where
  "partXml p = ''<Part><PartNumber>'' @ showNat (PartNumber p) @ ''</PartNumber><ETag>'' @ ETag p @
     ''</ETag></Part>''"

definition completeXmlBody :: "part list \<Rightarrow> string" where
  "completeXmlBody parts =
     nl @ ''    <CompleteMultipartUpload xmlns='' @ dq @
     ''http://s3.amazonaws.com/doc/2006-03-01/'' @ dq @ ''>'' @ nl @ ''      '' @
     join [] (map partXml parts) @ nl @ ''    </CompleteMultipartUpload>'' @ nl @ ''  ''"

definition completeMultipartUpload ::
  "platform \<Rightarrow> network \<Rightarrow> R2Config \<Rightarrow> string \<Rightarrow> string \<Rightarrow> part list \<Rightarrow> unit io" where
  "completeMultipartUpload P net config fileName uploadId parts w =
     (let endpoint = ''https://'' @ endpointHost config;
          path = ''/'' @ bucketName config @ ''/'' @ fileName;
          queryParams = [(''uploadId'', uploadId)];
          url = endpoint @ path @ ''?uploadId='' @ uploadId;
          amzDate = getAmzDate P (tick w);
          xmlBody = completeXmlBody parts;
          headers = [(''Host'', endpointHost config), (''X-Amz-Date'', amzDate),
                     (''Content-Type'', ''application/xml''),
                     (''X-Amz-Content-Sha256'', sha256 P (Text xmlBody))]
      in case createAwsSignature P ''POST'' path headers config (Text xmlBody) queryParams of
           Inl e \<Rightarrow> (Inl e, w)
         | Inr authorization \<Rightarrow>
             (case transmit net \<lparr>reqMethod = ''POST'', reqUrl = url,
                     reqHeaders = headers @ [(''Authorization'', authorization)],
                     reqBody = Some (Text xmlBody)\<rparr> w of
                (NetworkFailure, w') \<Rightarrow> (Inl (TypeError ''Failed to fetch''), w')
              | (Response st txt etag text, w') \<Rightarrow>
                  if \<not> ok st
                  then (Inl (Error (''Failed to complete multipart upload: '' @ txt)), w')
                  else (Inr (), w')))"

text \<open>The abort request: the response is awaited and never looked at.\<close>

definition abortMultipartUpload :: "platform \<Rightarrow> network \<Rightarrow> R2Config \<Rightarrow> string \<Rightarrow> string \<Rightarrow> unit io" where
  "abortMultipartUpload P net config fileName uploadId w =
     (let endpoint = ''https://'' @ endpointHost config;
          path = ''/'' @ bucketName config @ ''/'' @ fileName;
          queryParams = [(''uploadId'', uploadId)];
          url = endpoint @ path @ ''?uploadId='' @ uploadId;
          amzDate = getAmzDate P (tick w);
          headers = [(''Host'', endpointHost config), (''X-Amz-Date'', amzDate),
                     (''X-Amz-Content-Sha256'', sha256 P (Text []))]
      in case createAwsSignature P ''DELETE'' path headers config (Text []) queryParams of
           Inl e \<Rightarrow> (Inl e, w)
         | Inr authorization \<Rightarrow>
             (case transmit net \<lparr>reqMethod = ''DELETE'', reqUrl = url,
                     reqHeaders = headers @ [(''Authorization'', authorization)],
                     reqBody = None\<rparr> w of
                (NetworkFailure, w') \<Rightarrow> (Inl (TypeError ''Failed to fetch''), w')
              | (Response st txt etag text, w') \<Rightarrow> (Inr (), w')))"

section \<open>Bucket policy client\<close>

text \<open>
  \<open>getBucketCors\<close>: the signature is computed before the \<open>try\<close>; the request and the
  checks of its status are inside it, and the \<open>catch\<close> logs whatever was thrown there
  and returns false.
\<close>

definition getBucketCors :: "platform \<Rightarrow> network \<Rightarrow> R2Config \<Rightarrow> bool io" where
  "getBucketCors P net config w =
     (let endpoint = ''https://'' @ endpointHost config;
          path = ''/'' @ bucketName config;
          queryParams = [(''cors'', [])];
          url = endpoint @ path @ ''?cors'';
          amzDate = getAmzDate P (tick w);
          headers = [(''Host'', endpointHost config), (''X-Amz-Date'', amzDate),
                     (''X-Amz-Content-Sha256'', sha256 P (Text []))]
      in case createAwsSignature P ''GET'' path headers config (Text []) queryParams of
           Inl e \<Rightarrow> (Inl e, w)
         | Inr authorization \<Rightarrow>
             (let (tried, w') =
                (case transmit net \<lparr>reqMethod = ''GET'', reqUrl = url,
                        reqHeaders = headers @ [(''Authorization'', authorization)],
                        reqBody = None\<rparr> w of
                   (NetworkFailure, w') \<Rightarrow> (Inl (TypeError ''Failed to fetch''), w')
                 | (Response st txt etag text, w') \<Rightarrow>
                     if st = 404 then (Inr False, w')
                     else if \<not> ok st
                     then (Inl (Error (''Failed to get CORS policy: '' @ showNat st @ '' '' @ txt)), w')
                     else (Inr True, w'))
              in case tried of
                   Inr b \<Rightarrow> (Inr b, w')
                 | Inl error \<Rightarrow> (Inr False, consoleError ''Error checking CORS:'' error w')))"

section \<open>The bounded pool\<close>

text \<open>
  \<open>asyncPool(concurrency, items, fn)\<close> starts \<open>fn(item, index)\<close> for one item after
  the other and, whenever \<open>executing\<close> has reached the bound, waits for the first of the
  running tasks to settle; after the last start it waits for all (\<open>Promise.all\<close>). A
  fulfilled task stores its value at its own index and leaves \<open>executing\<close>; the first
  rejection rejects the pool. Which running task settles next is the network's choice: the
  scheduler \<open>pick\<close> names a position in \<open>executing\<close>. A task's requests are recorded
  when it settles.
\<close>

type_synonym scheduler = "nat list \<Rightarrow> nat"

definition chosen :: "scheduler \<Rightarrow> nat list \<Rightarrow> nat" where
  "chosen pick executing = executing ! (pick executing mod length executing)"

function asyncPoolLoop ::
  "nat \<Rightarrow> 'b list \<Rightarrow> ('b \<Rightarrow> nat \<Rightarrow> 'a io) \<Rightarrow> scheduler \<Rightarrow> nat \<Rightarrow> nat list \<Rightarrow> 'a option list \<Rightarrow>
   world \<Rightarrow> (js_error + 'a list) \<times> world" where
  "asyncPoolLoop concurrency items fn pick index executing results w =
     (if index < length items then
        (let executing' = executing @ [index] in
         if length executing' \<ge> concurrency then
           (let i = chosen pick executing' in
            case fn (items ! i) i w of
              (Inl e, w') \<Rightarrow> (Inl e, w')
            | (Inr res, w') \<Rightarrow>
                asyncPoolLoop concurrency items fn pick (index + 1) (remove1 i executing')
                  (results[i := Some res]) w')
         else asyncPoolLoop concurrency items fn pick (index + 1) executing' results w)
      else if executing = [] then (Inr (List.map_filter (\<lambda>r. r) results), w)
      else
        (let i = chosen pick executing in
         case fn (items ! i) i w of
           (Inl e, w') \<Rightarrow> (Inl e, w')
         | (Inr res, w') \<Rightarrow>
             asyncPoolLoop concurrency items fn pick index (remove1 i executing)
               (results[i := Some res]) w'))"
  by pat_completeness auto
termination
proof (relation "measure (\<lambda>(concurrency, items, fn, pick, index, executing, results, w).
    2 * (length items - index) + length executing)", goal_cases)
  case 1
  show ?case by simp
next
  case (2 concurrency items fn pick index executing results w executing' i x1 w' res)
  then show ?case by (auto simp: length_remove1)
next
  case (3 concurrency items fn pick index executing results w executing')
  then show ?case by auto
next
  case (4 concurrency items fn pick index executing results w i x1 w' res)
  then have "i \<in> set executing"
    by (simp add: chosen_def)
  with 4 show ?case by (auto simp: length_remove1 intro!: diff_less) 
qed

declare asyncPoolLoop.simps [simp del]

definition asyncPool ::
  "nat \<Rightarrow> 'b list \<Rightarrow> ('b \<Rightarrow> nat \<Rightarrow> 'a io) \<Rightarrow> scheduler \<Rightarrow> world \<Rightarrow> (js_error + 'a list) \<times> world" where
  "asyncPool concurrency items fn pick w =
     asyncPoolLoop concurrency items fn pick 0 [] (replicate (length items) None) w"

section \<open>Upload\<close>

definition MULTIPART_THRESHOLD :: nat where
  "MULTIPART_THRESHOLD = 100 * 1024 * 1024"

definition PART_SIZE :: nat where
  "PART_SIZE = 10 * 1024 * 1024"

definition MAX_CONCURRENT_PARTS :: nat where
  "MAX_CONCURRENT_PARTS = 3"

text \<open>
  \<open>Math.ceil(file.size / PART_SIZE)\<close>. A file size is an integer below \<open>2^53\<close>, where
  the rounding of the quotient does not move the ceiling.
\<close>

definition totalPartsOf :: "nat \<Rightarrow> nat" where
  "totalPartsOf fileSize = nat \<lceil>real fileSize / real PART_SIZE\<rceil>"

text \<open>The byte range of part \<open>i\<close>: \<open>file.slice(start, end)\<close>.\<close>

definition partChunk :: "File \<Rightarrow> nat \<Rightarrow> 8 word list" where
  "partChunk f i =
     (let start = i * PART_SIZE;
          end = min (start + PART_SIZE) (file_size f)
      in slice start end (file_bytes f))"

text \<open>The task of one part, as the pool runs it.\<close>

definition uploadPartTask ::
  "platform \<Rightarrow> network \<Rightarrow> R2Config \<Rightarrow> string \<Rightarrow> string \<Rightarrow> File \<Rightarrow> nat \<Rightarrow> nat \<Rightarrow> part io" where
  "uploadPartTask P net config fileName uploadId f i index w =
     (let chunk = partChunk f i;
          partNumber = i + 1
      in case retryDefault (uploadPart P net config fileName uploadId partNumber chunk) w of
           (Inl e, w') \<Rightarrow> (Inl e, w')
         | (Inr etag, w') \<Rightarrow> (Inr \<lparr>PartNumber = partNumber, ETag = etag\<rparr>, w'))"

text \<open>The body of the \<open>try\<close> of the multipart branch.\<close>

definition uploadAllParts ::
  "platform \<Rightarrow> network \<Rightarrow> scheduler \<Rightarrow> R2Config \<Rightarrow> string \<Rightarrow> string \<Rightarrow> File \<Rightarrow> unit io" where
  "uploadAllParts P net pick config fileName uploadId f w =
     (let totalParts = totalPartsOf (file_size f);
          partIndices = [0..<totalParts]
      in case asyncPool MAX_CONCURRENT_PARTS partIndices
                (uploadPartTask P net config fileName uploadId f) pick w of
           (Inl e, w') \<Rightarrow> (Inl e, w')
         | (Inr parts, w') \<Rightarrow>
             retryDefault (completeMultipartUpload P net config fileName uploadId
               (sort_key PartNumber parts)) w')"

text \<open>The multipart branch: initiate, then the \<open>try\<close> with its \<open>catch\<close>.\<close>

definition multipartUpload ::
  "platform \<Rightarrow> network \<Rightarrow> scheduler \<Rightarrow> R2Config \<Rightarrow> string \<Rightarrow> File \<Rightarrow> unit io" where
  "multipartUpload P net pick config fileName f w =
     (let contentType = (if file_type f \<noteq> [] then file_type f else ''application/octet-stream'') in
      case retryDefault (initiateMultipartUpload P net config fileName contentType) w of
        (Inl e, w1) \<Rightarrow> (Inl e, w1)
      | (Inr uploadId, w1) \<Rightarrow>
          (case uploadAllParts P net pick config fileName uploadId f w1 of
             (Inr u, w2) \<Rightarrow> (Inr u, w2)
           | (Inl error, w2) \<Rightarrow>
               (case retryDefault (abortMultipartUpload P net config fileName uploadId)
                       (consoleError ''Multipart upload failed, aborting...'' error w2) of
                  (Inl abortError, w3) \<Rightarrow> (Inl abortError, w3)
                | (Inr u, w3) \<Rightarrow> (Inl error, w3))))"

text \<open>The single-object branch.\<close>

definition singleUpload :: "platform \<Rightarrow> network \<Rightarrow> R2Config \<Rightarrow> string \<Rightarrow> File \<Rightarrow> unit io" where
  "singleUpload P net config fileName f w =
     (let endpoint = ''https://'' @ endpointHost config;
          path = ''/'' @ bucketName config @ ''/'' @ fileName;
          url = endpoint @ path;
          amzDate = getAmzDate P (tick w);
          fileBuffer = file_bytes f;
          contentHash = sha256 P (Buffer fileBuffer);
          headers = [(''Host'', endpointHost config), (''X-Amz-Date'', amzDate),
                     (''X-Amz-Content-Sha256'', contentHash),
                     (''Content-Type'',
                        if file_type f \<noteq> [] then file_type f else ''application/octet-stream'')]
      in case createAwsSignature P ''PUT'' path headers config (Buffer fileBuffer) [] of
           Inl e \<Rightarrow> (Inl e, w)
         | Inr authorization \<Rightarrow>
             retryDefault
               (uploadSmallFile net url (headers @ [(''Authorization'', authorization)]) fileBuffer)
               w)"

record uploadResult =
  fileId :: string
  url :: string

definition uploadFileToR2 ::
  "platform \<Rightarrow> network \<Rightarrow> scheduler \<Rightarrow> File \<Rightarrow> bool \<Rightarrow> 16 word list option \<Rightarrow> uploadResult io" where
  "uploadFileToR2 P net pick f hashFilenames customName w =
     (case getR2Config P of
        None \<Rightarrow>
          (Inl (Error ''R2 configuration not found. Please configure your R2 settings.''), w)
      | Some config \<Rightarrow>
          (let nameToUse = (case customName of
                              None \<Rightarrow> file_name f
                            | Some n \<Rightarrow> if n \<noteq> [] then n else file_name f)
           in case sanitizeFileName nameToUse of
                Inl e \<Rightarrow> (Inl e, w)
              | Inr sanitizedName \<Rightarrow>
                  (let fileName = (if hashFilenames then hashFileName P sanitizedName (tick w)
                                   else sanitizedName)
                   in case (if file_size f > MULTIPART_THRESHOLD
                            then multipartUpload P net pick config fileName f w
                            else singleUpload P net config fileName f w) of
                        (Inl e, w') \<Rightarrow> (Inl e, w')
                      | (Inr u, w') \<Rightarrow>
                          (let downloadUrl = generatePresignedUrl P fileName config (Some 600) (tick w')
                           in (Inr \<lparr>fileId = fileName, url = downloadUrl\<rparr>, w')))))"

section \<open>Progress aggregation\<close>

text \<open>
  The callback the multipart branch hands to \<open>uploadPart\<close> for part \<open>i\<close>: it stores
  the part's progress in the shared array \<open>partProgresses\<close> (one entry per part, zero
  at the start), sums the uploaded bytes over all parts and reports the total to the caller.
  JavaScript numbers are doubles: each operation yields the exact result rounded, and
  \<open>fl\<close> is that rounding. The state is the array and the values reported so far.
\<close>

definition partSizeOf :: "nat \<Rightarrow> nat \<Rightarrow> nat \<Rightarrow> real" where
  "partSizeOf fileSize totalParts idx =
     (if Suc idx = totalParts then real fileSize - real (idx * PART_SIZE) else real PART_SIZE)"

definition totalUploadedBytes :: "(real \<Rightarrow> real) \<Rightarrow> nat \<Rightarrow> nat \<Rightarrow> real list \<Rightarrow> real" where
  "totalUploadedBytes fl fileSize totalParts partProgresses =
     foldl (\<lambda>acc (idx, prog). fl (acc + fl (fl (prog / 100) * partSizeOf fileSize totalParts idx)))
       0 (zip [0..<length partProgresses] partProgresses)"

definition totalProgressOf :: "(real \<Rightarrow> real) \<Rightarrow> nat \<Rightarrow> nat \<Rightarrow> real list \<Rightarrow> real" where
  "totalProgressOf fl fileSize totalParts partProgresses =
     fl (fl (totalUploadedBytes fl fileSize totalParts partProgresses / real fileSize) * 100)"

definition onPartProgress ::
  "(real \<Rightarrow> real) \<Rightarrow> nat \<Rightarrow> nat \<Rightarrow> nat \<Rightarrow> real \<Rightarrow> real list \<times> real list \<Rightarrow> real list \<times> real list" where
  "onPartProgress fl fileSize totalParts i partProgress st =
     (let partProgresses = (fst st)[i := partProgress];
          totalProgress = totalProgressOf fl fileSize totalParts partProgresses
      in (partProgresses, snd st @ [totalProgress]))"

text \<open>
  The totals reported while a sequence of part-progress events \<open>(i, partProgress)\<close>
  arrives, in any interleaving of the parts.
\<close>

definition reportedProgress :: "(real \<Rightarrow> real) \<Rightarrow> nat \<Rightarrow> (nat \<times> real) list \<Rightarrow> real list" where
  "reportedProgress fl fileSize events =
     (let totalParts = totalPartsOf fileSize
      in snd (foldl (\<lambda>st (i, partProgress). onPartProgress fl fileSize totalParts i partProgress st)
                (replicate totalParts 0, []) events))"

text \<open>
  The events the claim speaks of: each names a part of the upload, carries a progress
  between 0 and 100, and is not below the part's progress so far.
\<close>

fun monotoneEvents :: "real list \<Rightarrow> (nat \<times> real) list \<Rightarrow> bool" where
  "monotoneEvents ps [] = True"
| "monotoneEvents ps ((i, p) # evs) =
     (i < length ps \<and> ps ! i \<le> p \<and> p \<le> 100 \<and> monotoneEvents (ps[i := p]) evs)"

text \<open>
  What is used of the rounding: it is monotone, and integers up to \<open>2^53\<close> are
  doubles, so it leaves them alone. Exact arithmetic (the identity) is one such rounding.
\<close>

definition rounding :: "(real \<Rightarrow> real) \<Rightarrow> bool" where
  "rounding fl = ((\<forall>x y. x \<le> y \<longrightarrow> fl x \<le> fl y) \<and> (\<forall>n::nat. n \<le> 2 ^ 53 \<longrightarrow> fl (real n) = real n))"

section \<open>Vocabulary for the properties\<close>

text \<open>
  \<open>adds Q fn\<close>: from any world, the operation only appends to the requests sent, and
  every request it appends satisfies \<open>Q\<close>.
\<close>

definition adds :: "(request \<Rightarrow> bool) \<Rightarrow> 'a io \<Rightarrow> bool" where
  "adds Q fn = (\<forall>w. \<exists>rest. sent (snd (fn w)) = sent w @ rest \<and> list_all Q rest)"

text \<open>
  The invariant of the pool's loop: \<open>executing\<close> holds distinct indices already
  started, a slot of \<open>results\<close> is empty exactly while its task has not started
  or is still running, and a filled slot holds what its own task returned.
\<close>

definition poolInv :: "'b list \<Rightarrow> ('b \<Rightarrow> nat \<Rightarrow> 'a io) \<Rightarrow> nat \<Rightarrow> nat list \<Rightarrow> 'a option list \<Rightarrow> bool" where
  "poolInv items fn index executing results =
     (length results = length items \<and> index \<le> length items \<and> distinct executing \<and>
      (\<forall>i \<in> set executing. i < index) \<and>
      (\<forall>i < length items. (results ! i = None) = (index \<le> i \<or> i \<in> set executing)) \<and>
      (\<forall>i < length items. \<forall>r. results ! i = Some r \<longrightarrow>
          (\<exists>w0 w1. fn (items ! i) i w0 = (Inr r, w1))))"

text \<open>
  A name is well formed when its surrogates come in pairs, a high one followed at once by a
  low one.
\<close>

fun wellFormed :: "16 word list \<Rightarrow> bool" where
  "wellFormed [] = True"
| "wellFormed [c] = (\<not> isHighSurrogate c \<and> \<not> isLowSurrogate c)"
| "wellFormed (c # d # ds) =
     (if isHighSurrogate c then isLowSurrogate d \<and> wellFormed ds
      else \<not> isLowSurrogate c \<and> wellFormed (d # ds))"

text \<open>
  The characters an encoded key is made of (the unreserved ones of
  \<open>encodeURIComponent\<close> without the asterisk, and the percent sign), and the ones a key
  must not hold: the separators, colon, asterisk, question mark, quotation mark, angle
  brackets, bar, space and the control characters.
\<close>

definition urlSafeChar :: "char \<Rightarrow> bool" where
  "urlSafeChar k =
     (let n = (of_char k :: nat) in
      (0x41 \<le> n \<and> n \<le> 0x5A) \<or> (0x61 \<le> n \<and> n \<le> 0x7A) \<or> (0x30 \<le> n \<and> n \<le> 0x39) \<or>
      n \<in> {0x2D, 0x5F, 0x2E, 0x21, 0x7E, 0x27, 0x28, 0x29, 0x25})"

definition forbiddenChar :: "char \<Rightarrow> bool" where
  "forbiddenChar k =
     (let n = (of_char k :: nat) in
      n \<in> {0x2F, 0x5C, 0x3A, 0x2A, 0x3F, 0x22, 0x3C, 0x3E, 0x7C, 0x20} \<or> n \<le> 0x1F \<or> n = 0x7F)"

text \<open>The name after the replacements of \<open>sanitizeFileName\<close> and before its trimming.\<close>

definition cleaned :: "16 word list \<Rightarrow> 16 word list" where
  "cleaned fileName =
     squeeze (\<lambda>c. c = 0x2D) 0x2D (squeeze (\<lambda>c. c = 0x2E) 0x2E
       (filter (\<lambda>c. \<not> isUnsafe c) (squeeze isWhiteSpace 0x2D fileName)))"

section \<open>A platform for the examples\<close>

text \<open>
  Every theorem below holds for any platform. Where an example needs a concrete one, it is
  this: checksums in place of the digests, a fixed clock and a fixed random source.
\<close>

definition sampleConfig :: R2Config where
  "sampleConfig = \<lparr>accountId = ''acct'', accessKeyId = ''AKIDEXAMPLE'', secretAccessKey = ''secret'',
     bucketName = ''bucket'', publicUrl = None\<rparr>"

definition samplePlatform :: platform where
  "samplePlatform =
     \<lparr>digest = (\<lambda>bs. [of_nat (length bs), sum_list bs]),
      hmacSign = (\<lambda>key msg. [of_nat (length msg), sum_list key + sum_list msg]),
      uploadIdText = (\<lambda>body. if body = [] then None else Some body),
      toISOString = (\<lambda>t. ''2026-01-02T03:04:05.678Z''),
      randomBase36 = (\<lambda>t. ''0.4fzyo82mvyr''),
      storedConfig = Some sampleConfig\<rparr>"

text \<open>
  A file just above the multipart threshold, and a store that accepts the initiation,
  refuses every part with a 500, and is unreachable for the first abort request only.
\<close>

definition sampleBigFile :: File where
  "sampleBigFile = \<lparr>file_name = units ''big.bin'', file_type = [], file_bytes = replicate 104857601 0\<rparr>"


text \<open>A store that accepts every request.\<close>

definition acceptingNetwork :: network where
  "acceptingNetwork history req = Response 200 ''OK'' (Some ''etag'') ''upload-1''"

section \<open>Evaluation of the string functions\<close>

lemmas uri_eval = units_def uriUnreserved_def utf8_def percentByte_def percentEncode_def hexDigitUpper_def
  char_of_def bit_0 isLowSurrogate_def isHighSurrogate_def prepend_def uriEncode_def surrogatePair_def

lemma showNat_digit: "n < 10 \<Longrightarrow> showNat n = [digitChar n]"
  by (simp add: showNat.simps)

lemma showNat_step: "10 \<le> n \<Longrightarrow> showNat n = showNat (n div 10) @ [digitChar (n mod 10)]"
  by (subst showNat.simps) simp

lemmas showNat_eval = showNat_digit showNat_step digitChar_def char_of_def bit_0

lemma showNat_600: "showNat 600 = ''600''"
  by (simp add: showNat_eval)

lemma showNat_500: "showNat 500 = ''500''"
  by (simp add: showNat_eval)

section \<open>Properties of the retry policy\<close>

lemma retry_success:
  "fn w = (Inr v, w') \<Longrightarrow> retry fn retries delay backoff w = (Inr v, w')"
  by (simp add: retry.simps)

lemma retry_exhausted:
  "fn w = (Inl err, w') \<Longrightarrow> retries \<le> 0 \<Longrightarrow> retry fn retries delay backoff w = (Inl err, w')"
  by (simp add: retry.simps)

lemma retry_again:
  "fn w = (Inl err, w') \<Longrightarrow> 0 < retries \<Longrightarrow>
   retry fn retries delay backoff w = retry fn (retries - 1) (delay * backoff) backoff (sleep delay w')"
  by (simp add: retry.simps)

lemma retry_zero: "retry fn 0 delay backoff w = fn w"
  by (simp add: retry.simps split: prod.splits sum.splits)

text \<open>
  Claim C3, as the code has it. With the defaults \<open>retry\<close> runs the operation at most
  four times: the first attempt and up to three retries. It sleeps 1000, 2000 and 4000
  milliseconds between consecutive attempts, returns the first success unchanged without
  running the operation again, and after the fourth failure returns that last attempt's
  error.
\<close>

theorem retry_default_attempts:
  "retryDefault fn w0 =
     (case fn w0 of
        (Inr v, w1) \<Rightarrow> (Inr v, w1)
      | (Inl e1, w1) \<Rightarrow>
          (case fn (sleep 1000 w1) of
             (Inr v, w2) \<Rightarrow> (Inr v, w2)
           | (Inl e2, w2) \<Rightarrow>
               (case fn (sleep 2000 w2) of
                  (Inr v, w3) \<Rightarrow> (Inr v, w3)
                | (Inl e3, w3) \<Rightarrow> fn (sleep 4000 w3))))"
  unfolding retryDefault_def
  by (simp add: retry.simps[of fn 3] retry.simps[of fn 2] retry.simps[of fn 1] retry_zero
        split: prod.splits sum.splits)

text \<open>
  Claim C3 as stated (at most three executions) fails: against a network that is down,
  the retried upload sends its request a fourth time.
\<close>

theorem retry_default_fourth_attempt:
  "\<not> length (sent (snd (retryDefault
        (uploadSmallFile (\<lambda>history req. NetworkFailure) ''https://a.example/k'' [] [])
        initialWorld))) \<le> 3"
  by code_simp

section \<open>Properties of the bucket policy client\<close>

lemma createAwsSignature_dated:
  "map_of headers ''X-Amz-Date'' = Some date \<Longrightarrow>
   \<exists>authorization. createAwsSignature P method path headers config payload queryParams = Inr authorization"
  by (simp add: createAwsSignature_def Let_def)

lemma getBucketCors_outcome:
  "\<exists>req. sent (snd (getBucketCors P net config w)) = sent w @ [req] \<and>
         reqMethod req = ''GET'' \<and>
         fst (getBucketCors P net config w) =
           Inr (case net (sent w) req of
                  NetworkFailure \<Rightarrow> False
                | Response st stx etag body \<Rightarrow> ok st) \<and>
         console (snd (getBucketCors P net config w)) =
           console w @
           (case net (sent w) req of
              NetworkFailure \<Rightarrow> [(''Error checking CORS:'', TypeError ''Failed to fetch'')]
            | Response st stx etag body \<Rightarrow>
                if st = 404 \<or> ok st then []
                else [(''Error checking CORS:'',
                       Error (''Failed to get CORS policy: '' @ showNat st @ '' '' @ stx))])"
proof -
  define headers where "headers = [(''Host'', endpointHost config), (''X-Amz-Date'', getAmzDate P (tick w)),
                     (''X-Amz-Content-Sha256'', sha256 P (Text []))]"
  have "map_of headers ''X-Amz-Date'' = Some (getAmzDate P (tick w))" by (simp add: headers_def)
  from createAwsSignature_dated[OF this]
  obtain a where a: "createAwsSignature P ''GET'' (''/'' @ bucketName config) headers config (Text []) [(''cors'', [])] = Inr a"
    by blast
  define req where "req = \<lparr>reqMethod = ''GET'', reqUrl = (''https://'' @ endpointHost config) @ (''/'' @ bucketName config) @ ''?cors'',
       reqHeaders = headers @ [(''Authorization'', a)], reqBody = None\<rparr>"
  have m: "reqMethod req = ''GET''" by (simp add: req_def)
  have unf: "getBucketCors P net config w =
     (let (tried, w') =
                (case transmit net req w of
                   (NetworkFailure, w') \<Rightarrow> (Inl (TypeError ''Failed to fetch''), w')
                 | (Response st stx etag body, w') \<Rightarrow>
                     if st = 404 then (Inr False, w')
                     else if \<not> ok st
                     then (Inl (Error (''Failed to get CORS policy: '' @ showNat st @ '' '' @ stx)), w')
                     else (Inr True, w'))
              in case tried of
                   Inr b \<Rightarrow> (Inr b, w')
                 | Inl error \<Rightarrow> (Inr False, consoleError ''Error checking CORS:'' error w'))"
    by (simp only: getBucketCors_def Let_def headers_def[symmetric] a req_def sum.case)
  have "sent (snd (getBucketCors P net config w)) = sent w @ [req] \<and>
         fst (getBucketCors P net config w) =
           Inr (case net (sent w) req of
                  NetworkFailure \<Rightarrow> False
                | Response st stx etag body \<Rightarrow> ok st) \<and>
         console (snd (getBucketCors P net config w)) =
           console w @
           (case net (sent w) req of
              NetworkFailure \<Rightarrow> [(''Error checking CORS:'', TypeError ''Failed to fetch'')]
            | Response st stx etag body \<Rightarrow>
                if st = 404 \<or> ok st then []
                else [(''Error checking CORS:'',
                       Error (''Failed to get CORS policy: '' @ showNat st @ '' '' @ stx))])"
  proof (cases "net (sent w) req")
    case NetworkFailure
    then show ?thesis
      by (simp only: unf transmit_def Let_def) (simp add: consoleError_def)
  next
    case (Response st stx etag body)
    then show ?thesis
      by (simp only: unf transmit_def Let_def) (simp add: consoleError_def ok_def)
  qed
  with m show ?thesis by blast
qed

text \<open>
  Claim C2, as the code has it. \<open>getBucketCors\<close> sends one GET request and never
  raises on its response. It returns true exactly when the status is from 200 to 299,
  whatever the body, and then logs nothing. On a 404 it returns false and logs nothing. On
  every other status outside 200 to 299 it returns false as well: the error it throws for
  such a status is caught by its own \<open>catch\<close>, which writes that error to the
  console under \<open>Error checking CORS:\<close>. When the network fails it returns false and
  logs the TypeError of \<open>fetch\<close> in the same way.
\<close>

theorem getBucketCors_never_raises:
  "\<exists>req. reqMethod req = ''GET'' \<and>
         sent (snd (getBucketCors P net config w)) = sent w @ [req] \<and>
         (case net (sent w) req of
            NetworkFailure \<Rightarrow>
              fst (getBucketCors P net config w) = Inr False \<and>
              console (snd (getBucketCors P net config w)) =
                console w @ [(''Error checking CORS:'', TypeError ''Failed to fetch'')]
          | Response st stx etag body \<Rightarrow>
              fst (getBucketCors P net config w) = Inr (200 \<le> st \<and> st < 300) \<and>
              console (snd (getBucketCors P net config w)) =
                console w @
                (if st = 404 \<or> (200 \<le> st \<and> st < 300) then []
                 else [(''Error checking CORS:'',
                        Error (''Failed to get CORS policy: '' @ showNat st @ '' '' @ stx))]))"
proof -
  obtain req where "sent (snd (getBucketCors P net config w)) = sent w @ [req]"
    and "reqMethod req = ''GET''"
    and "fst (getBucketCors P net config w) =
           Inr (case net (sent w) req of
                  NetworkFailure \<Rightarrow> False
                | Response st stx etag body \<Rightarrow> ok st)"
    and "console (snd (getBucketCors P net config w)) =
           console w @
           (case net (sent w) req of
              NetworkFailure \<Rightarrow> [(''Error checking CORS:'', TypeError ''Failed to fetch'')]
            | Response st stx etag body \<Rightarrow>
                if st = 404 \<or> ok st then []
                else [(''Error checking CORS:'',
                       Error (''Failed to get CORS policy: '' @ showNat st @ '' '' @ stx))])"
    using getBucketCors_outcome[of P net config w] by blast
  then show ?thesis
    by (intro exI[of _ req]) (simp add: ok_def split: response.splits)
qed

text \<open>
  Claim C2 as stated (an error is raised for a 500) fails: the call returns false, and the
  error it threw inside is on the console.
\<close>

theorem getBucketCors_500_is_false:
  "fst (getBucketCors samplePlatform (\<lambda>history req. Response 500 ''Internal Server Error'' None [])
          sampleConfig initialWorld) = Inr False \<and>
   console (snd (getBucketCors samplePlatform (\<lambda>history req. Response 500 ''Internal Server Error'' None [])
          sampleConfig initialWorld)) =
     [(''Error checking CORS:'', Error ''Failed to get CORS policy: 500 Internal Server Error'')]"
  using getBucketCors_outcome[of samplePlatform
      "\<lambda>history req. Response 500 ''Internal Server Error'' None []" sampleConfig initialWorld]
  by (auto simp: ok_def showNat_500 initialWorld_def)

section \<open>Properties of the presigned URL generator\<close>

lemma getAmzDate_sample: "getAmzDate samplePlatform t = ''20260102T030405Z''"
  by (simp add: getAmzDate_def samplePlatform_def isDigit_def)

text \<open>
  Claim C8, as the code has it. With a non-empty public URL the result is that URL, one
  trailing slash removed, then a slash and the key: no signature and nothing of the
  platform enters. With no public URL, or an empty one, the result is the endpoint and path
  followed by the query parameters for the algorithm, the credential, the date, the expiry
  (600 when none is given) and the signed-header list \<open>host\<close>, then the signature; the
  canonical request that is signed names \<open>host\<close> as its only header and ends in the
  literal \<open>UNSIGNED-PAYLOAD\<close>.
\<close>

theorem generatePresignedUrl_shape:
  "(\<forall>u. publicUrl config = Some u \<and> u \<noteq> [] \<longrightarrow>
      generatePresignedUrl P fileName config expiresInArg t =
        (if last u = CHR ''/'' then butlast u else u) @ ''/'' @ fileName) \<and>
   (publicUrl config = None \<or> publicUrl config = Some [] \<longrightarrow>
      (let amzDate = getAmzDate P t;
           expiresIn = (case expiresInArg of None \<Rightarrow> 600 | Some n \<Rightarrow> n);
           scope = take 8 amzDate @ ''/auto/s3/aws4_request'';
           path = ''/'' @ bucketName config @ ''/'' @ fileName;
           host = accountId config @ ''.r2.cloudflarestorage.com'';
           query = ''X-Amz-Algorithm=AWS4-HMAC-SHA256&X-Amz-Credential='' @
             uriEncode (accessKeyId config @ ''/'' @ scope) @ ''&X-Amz-Date='' @ amzDate @
             ''&X-Amz-Expires='' @ showNat expiresIn @ ''&X-Amz-SignedHeaders=host'';
           canonicalRequest = ''GET'' @ nl @ path @ nl @ query @ nl @ ''host:'' @ host @ nl @ nl @
             ''host'' @ nl @ ''UNSIGNED-PAYLOAD'';
           stringToSign = ''AWS4-HMAC-SHA256'' @ nl @ amzDate @ nl @ scope @ nl @
             sha256 P (Text canonicalRequest);
           signature = hmacSha256 P
             (getSignatureKey P (secretAccessKey config) (take 8 amzDate) ''auto'' ''s3'') stringToSign
       in generatePresignedUrl P fileName config expiresInArg t =
            ''https://'' @ host @ path @ ''?'' @ query @ ''&X-Amz-Signature='' @ signature))"
proof (intro conjI allI impI)
  fix u assume "publicUrl config = Some u \<and> u \<noteq> []"
  then show "generatePresignedUrl P fileName config expiresInArg t =
        (if last u = CHR ''/'' then butlast u else u) @ ''/'' @ fileName"
    by (simp add: generatePresignedUrl_def dropTrailingSlash_def)
next
  assume "publicUrl config = None \<or> publicUrl config = Some []"
  then have "generatePresignedUrl P fileName config expiresInArg t =
     presignedGetUrl P fileName config (case expiresInArg of None \<Rightarrow> 600 | Some n \<Rightarrow> n) t"
    by (auto simp: generatePresignedUrl_def)
  then show "let amzDate = getAmzDate P t;
           expiresIn = (case expiresInArg of None \<Rightarrow> 600 | Some n \<Rightarrow> n);
           scope = take 8 amzDate @ ''/auto/s3/aws4_request'';
           path = ''/'' @ bucketName config @ ''/'' @ fileName;
           host = accountId config @ ''.r2.cloudflarestorage.com'';
           query = ''X-Amz-Algorithm=AWS4-HMAC-SHA256&X-Amz-Credential='' @
             uriEncode (accessKeyId config @ ''/'' @ scope) @ ''&X-Amz-Date='' @ amzDate @
             ''&X-Amz-Expires='' @ showNat expiresIn @ ''&X-Amz-SignedHeaders=host'';
           canonicalRequest = ''GET'' @ nl @ path @ nl @ query @ nl @ ''host:'' @ host @ nl @ nl @
             ''host'' @ nl @ ''UNSIGNED-PAYLOAD'';
           stringToSign = ''AWS4-HMAC-SHA256'' @ nl @ amzDate @ nl @ scope @ nl @
             sha256 P (Text canonicalRequest);
           signature = hmacSha256 P
             (getSignatureKey P (secretAccessKey config) (take 8 amzDate) ''auto'' ''s3'') stringToSign
       in generatePresignedUrl P fileName config expiresInArg t =
            ''https://'' @ host @ path @ ''?'' @ query @ ''&X-Amz-Signature='' @ signature"
    by (simp add: presignedGetUrl_def presignedCanonicalRequest_def presignedQuery_def
          endpointHost_def Let_def)
qed

theorem generatePresignedUrl_shape_witness:
  "generatePresignedUrl samplePlatform ''k.txt''
      (sampleConfig\<lparr>publicUrl := Some ''https://cdn.example.com''\<rparr>) None 0 =
     ''https://cdn.example.com/k.txt'' \<and>
   (\<exists>signature. generatePresignedUrl samplePlatform ''k.txt'' sampleConfig None 0 =
     ''https://acct.r2.cloudflarestorage.com/bucket/k.txt?X-Amz-Algorithm=AWS4-HMAC-SHA256&X-Amz-Credential=AKIDEXAMPLE%2F20260102%2Fauto%2Fs3%2Faws4_request&X-Amz-Date=20260102T030405Z&X-Amz-Expires=600&X-Amz-SignedHeaders=host&X-Amz-Signature='' @ signature)"
proof -
  have e: "uriEncode ''AKIDEXAMPLE/20260102/auto/s3/aws4_request'' =
      ''AKIDEXAMPLE%2F20260102%2Fauto%2Fs3%2Faws4_request''"
    by (simp add: uri_eval)
  show ?thesis
    using generatePresignedUrl_shape[of "sampleConfig\<lparr>publicUrl := Some ''https://cdn.example.com''\<rparr>"
        samplePlatform "''k.txt''" None 0]
      generatePresignedUrl_shape[of sampleConfig samplePlatform "''k.txt''" None 0]
    by (simp add: sampleConfig_def getAmzDate_sample showNat_600 e Let_def)
qed

text \<open>
  Claim C8 as stated (the result is the public URL, a slash and the key) fails for a public
  URL that ends in a slash: the code removes that slash first.
\<close>

theorem generatePresignedUrl_trailing_slash:
  "generatePresignedUrl samplePlatform ''k.txt''
      (sampleConfig\<lparr>publicUrl := Some ''https://cdn.example.com/''\<rparr>) None 0 \<noteq>
     ''https://cdn.example.com/'' @ ''/'' @ ''k.txt''"
  by (simp add: generatePresignedUrl_def dropTrailingSlash_def sampleConfig_def)

section \<open>Properties of the sampling digest\<close>

lemma calculatePartialHash_chunks:
  "calculatePartialHash P f =
     sha256 P (Buffer
       (textEncode (file_name f @ units (''-'' @ showNat (file_size f))) @
        take 1048576 (file_bytes f) @
        (if file_size f div 2 > 1048576
         then take 1048576 (drop (file_size f div 2) (file_bytes f)) else []) @
        (if file_size f > 2 * 1048576 then drop (file_size f - 1048576) (file_bytes f) else [])))"
proof -
  have "slice 0 (1024 * 1024) (file_bytes f) = take 1048576 (file_bytes f)"
    by (simp add: slice_def)
  moreover have "slice (file_size f div 2) (file_size f div 2 + 1024 * 1024) (file_bytes f) =
      take 1048576 (drop (file_size f div 2) (file_bytes f))"
    by (simp add: slice_def)
  ultimately show ?thesis
    unfolding calculatePartialHash_def Let_def
    by (cases "file_size f div 2 > 1048576"; cases "file_size f > 2 * 1048576") simp_all
qed

text \<open>
  Claim C9. A file above 50 MB is fingerprinted by the digest of one buffer: the UTF-8
  bytes of \<open>name-size\<close>, then the first megabyte, the megabyte that starts at half the
  size, and the last megabyte (above 50 MB the two size conditions of the sampling always
  hold, so both are there). A file of 50 MB or less is digested whole.
\<close>

theorem calculateFileHash_digest:
  "(file_size f > 50 * 1024 * 1024 \<longrightarrow>
      calculateFileHash P f =
        sha256 P (Buffer
          (textEncode (file_name f @ units (''-'' @ showNat (file_size f))) @
           take 1048576 (file_bytes f) @
           take 1048576 (drop (file_size f div 2) (file_bytes f)) @
           drop (file_size f - 1048576) (file_bytes f)))) \<and>
   (file_size f \<le> 50 * 1024 * 1024 \<longrightarrow>
      calculateFileHash P f = sha256 P (Buffer (file_bytes f)))"
proof (intro conjI impI)
  assume big: "file_size f > 50 * 1024 * 1024"
  then have "file_size f div 2 > 1048576" and "file_size f > 2 * 1048576"
    by simp_all
  with big show "calculateFileHash P f =
        sha256 P (Buffer
          (textEncode (file_name f @ units (''-'' @ showNat (file_size f))) @
           take 1048576 (file_bytes f) @
           take 1048576 (drop (file_size f div 2) (file_bytes f)) @
           drop (file_size f - 1048576) (file_bytes f)))"
    by (simp add: calculateFileHash_def calculatePartialHash_chunks)
next
  assume "file_size f \<le> 50 * 1024 * 1024"
  then show "calculateFileHash P f = sha256 P (Buffer (file_bytes f))"
    by (simp add: calculateFileHash_def)
qed

lemma showNat_52428801: "showNat 52428801 = ''52428801''"
  by (simp add: showNat_eval)

theorem calculateFileHash_digest_witness:
  "calculateFileHash samplePlatform
      \<lparr>file_name = units ''a.bin'', file_type = [], file_bytes = replicate 52428801 7\<rparr> =
     sha256 samplePlatform (Buffer
       (textEncode (units ''a.bin'' @ units ''-52428801'') @
        replicate 1048576 7 @ replicate 1048576 7 @ replicate 1048576 7)) \<and>
   calculateFileHash samplePlatform
      \<lparr>file_name = units ''a.bin'', file_type = [], file_bytes = [1, 2, 3]\<rparr> =
     sha256 samplePlatform (Buffer [1, 2, 3])"
proof -
  have "calculateFileHash samplePlatform
      \<lparr>file_name = units ''a.bin'', file_type = [], file_bytes = replicate 52428801 7\<rparr> =
     sha256 samplePlatform (Buffer
       (textEncode (units ''a.bin'' @ units ''-52428801'') @
        replicate 1048576 7 @ replicate 1048576 7 @ replicate 1048576 7))"
    using calculateFileHash_digest[of
      "\<lparr>file_name = units ''a.bin'', file_type = [], file_bytes = replicate 52428801 7\<rparr>" samplePlatform]
    by (simp add: file_size_def showNat_52428801 min_def)
  moreover have "calculateFileHash samplePlatform
      \<lparr>file_name = units ''a.bin'', file_type = [], file_bytes = [1, 2, 3]\<rparr> =
     sha256 samplePlatform (Buffer [1, 2, 3])"
    using calculateFileHash_digest[of
      "\<lparr>file_name = units ''a.bin'', file_type = [], file_bytes = [1, 2, 3]\<rparr>" samplePlatform]
    by (simp add: file_size_def)
  ultimately show ?thesis by simp
qed

section \<open>Properties of the signature\<close>

lemma sort_keys_cong:
  assumes "distinct (map fst h1)" and "distinct (map fst h2)" and "set h1 = set h2"
  shows "sort (map fst h1) = sort (map fst h2)"
proof -
  have "set (map fst h1) = set (map fst h2)"
    using assms(3) by simp
  with assms(1,2) have "mset (map fst h1) = mset (map fst h2)"
    using set_eq_iff_mset_eq_distinct[of "map fst h1" "map fst h2"] by blast
  then have "mset (sort (map fst h2)) = mset (map fst h1)"
    by simp
  then show ?thesis
    by (rule properties_for_sort) simp
qed

lemma valueOf_cong:
  assumes "distinct (map fst h1)" and "distinct (map fst h2)" and "set h1 = set h2"
  shows "valueOf h1 = valueOf h2" and "map_of h1 = map_of h2"
proof -
  show m: "map_of h1 = map_of h2"
    using assms by (simp add: map_of_inject_set)
  show "valueOf h1 = valueOf h2"
    by (rule ext) (simp add: valueOf_def m)
qed

lemma createAwsSignature_cong:
  assumes "distinct (map fst h1)" and "distinct (map fst h2)" and "set h1 = set h2"
  shows "createAwsSignature P method path h1 config payload queryParams =
         createAwsSignature P method path h2 config payload queryParams"
  unfolding createAwsSignature_def canonicalHeadersOf_def signedHeadersOf_def
  by (simp only: sort_keys_cong[OF assms] valueOf_cong[OF assms])


text \<open>
  Two header objects with the same names and values, in any insertion order, give the same
  authorization value, for the same method, path, payload and query parameters: the order in
  which the headers were written does not matter.
\<close>

lemma createAwsSignature_order_invariant:
  assumes "distinct (map fst h1)" and "distinct (map fst h2)" and "set h1 = set h2"
  shows "createAwsSignature P method path h1 config payload queryParams =
         createAwsSignature P method path h2 config payload queryParams"
  by (rule createAwsSignature_cong[OF assms])

lemma createAwsSignature_order_example:
  "createAwsSignature samplePlatform ''GET'' ''/bucket''
     [(''B'', ''2''), (''A'', ''1''), (''X-Amz-Date'', ''20260102T030405Z'')] sampleConfig (Text []) [] =
   createAwsSignature samplePlatform ''GET'' ''/bucket''
     [(''A'', ''1''), (''X-Amz-Date'', ''20260102T030405Z''), (''B'', ''2'')] sampleConfig (Text []) []"
  by (rule createAwsSignature_order_invariant) auto


lemma createAwsSignature_date_as_written:
  "createAwsSignature P method path [(''x-amz-date'', d)] config payload queryParams =
     Inl (TypeError ''Cannot read properties of undefined (reading substr)'')"
  by (simp add: createAwsSignature_def Let_def)


section \<open>The requests of each operation\<close>

lemma sent_sleep [simp]: "sent (sleep delay w) = sent w"
  by (simp add: sleep_def)

lemma sent_consoleError [simp]: "sent (consoleError msg err w) = sent w"
  by (simp add: consoleError_def)

lemma addsD: "adds Q fn \<Longrightarrow> \<exists>rest. sent (snd (fn w)) = sent w @ rest \<and> list_all Q rest"
  by (simp add: adds_def)

lemma adds_weaken: "adds Q fn \<Longrightarrow> (\<And>r. Q r \<Longrightarrow> Q' r) \<Longrightarrow> adds Q' fn"
  unfolding adds_def by (metis (mono_tags, lifting) list.pred_mono_strong)

lemma retry_adds_aux:
  "adds Q fn \<Longrightarrow>
   \<exists>rest. sent (snd (retry fn retries delay backoff w)) = sent w @ rest \<and> list_all Q rest"
proof (induction fn retries delay backoff w rule: retry.induct)
  case (1 fn retries delay backoff w)
  obtain r w' where fw: "fn w = (r, w')" by (cases "fn w")
  from addsD[OF "1.prems", of w] obtain rest where "sent (snd (fn w)) = sent w @ rest" "list_all Q rest"
    by blast
  then have rest: "sent w' = sent w @ rest" "list_all Q rest"
    by (simp_all add: fw)
  show ?case
  proof (cases r)
    case (Inr v)
    with fw rest show ?thesis by (simp add: retry_success)
  next
    case (Inl err)
    show ?thesis
    proof (cases "retries \<le> 0")
      case True
      with fw Inl rest show ?thesis by (simp add: retry_exhausted)
    next
      case False
      from "1.IH"[OF fw[symmetric] Inl False "1.prems"]
      obtain rest' where "sent (snd (retry fn (retries - 1) (delay * backoff) backoff (sleep delay w'))) =
          sent (sleep delay w') @ rest'" "list_all Q rest'"
        by blast
      with fw Inl False rest show ?thesis
        by (simp add: retry_again)
    qed
  qed
qed

lemma adds_retry: "adds Q fn \<Longrightarrow> adds Q (retry fn retries delay backoff)"
  using retry_adds_aux unfolding adds_def by blast

lemma adds_retryDefault: "adds Q fn \<Longrightarrow> adds Q (retryDefault fn)"
  by (simp add: retryDefault_def adds_retry)

lemma sent_transmit [simp]: "sent (snd (transmit net req w)) = sent w @ [req]"
  by (simp add: transmit_def)

lemma fst_transmit [simp]: "fst (transmit net req w) = net (sent w) req"
  by (simp add: transmit_def)


lemma uploadSmallFile_sent:
  "sent (snd (uploadSmallFile net target headers body w)) =
     sent w @ [\<lparr>reqMethod = ''PUT'', reqUrl = target, reqHeaders = headers, reqBody = Some (Buffer body)\<rparr>]"
  by (simp add: uploadSmallFile_def transmit_def split: response.splits)

lemma abortMultipartUpload_sent:
  "\<exists>req. sent (snd (abortMultipartUpload P net config fileName uploadId w)) = sent w @ [req] \<and>
         reqMethod req = ''DELETE'' \<and>
         reqUrl req = ''https://'' @ endpointHost config @ ''/'' @ bucketName config @ ''/'' @ fileName @
           ''?uploadId='' @ uploadId \<and>
         fst (abortMultipartUpload P net config fileName uploadId w) =
           (case net (sent w) req of
              NetworkFailure \<Rightarrow> Inl (TypeError ''Failed to fetch'')
            | Response st stx etag body \<Rightarrow> Inr ())"
proof -
  have "map_of [(''Host'', endpointHost config), (''X-Amz-Date'', getAmzDate P (tick w)),
       (''X-Amz-Content-Sha256'', sha256 P (Text []))] ''X-Amz-Date'' = Some (getAmzDate P (tick w))"
    by simp
  from createAwsSignature_dated[OF this]
  obtain a where a: "createAwsSignature P ''DELETE'' (''/'' @ bucketName config @ ''/'' @ fileName)
      [(''Host'', endpointHost config), (''X-Amz-Date'', getAmzDate P (tick w)),
       (''X-Amz-Content-Sha256'', sha256 P (Text []))] config (Text []) [(''uploadId'', uploadId)] = Inr a"
    by blast
  show ?thesis
    unfolding abortMultipartUpload_def Let_def a
    by (simp add: transmit_def split: response.splits)
qed


lemma initiateMultipartUpload_sent:
  "\<exists>req. sent (snd (initiateMultipartUpload P net config fileName contentType w)) = sent w @ [req] \<and>
         reqMethod req = ''POST'' \<and>
         reqUrl req = ''https://'' @ endpointHost config @ ''/'' @ bucketName config @ ''/'' @ fileName @
           ''?uploads'' \<and>
         fst (initiateMultipartUpload P net config fileName contentType w) =
           (case net (sent w) req of
              NetworkFailure \<Rightarrow> Inl (TypeError ''Failed to fetch'')
            | Response st stx etag body \<Rightarrow>
                if \<not> ok st then Inl (Error (''Failed to initiate multipart upload: '' @ stx))
                else (case uploadIdText P body of
                        None \<Rightarrow> Inl (Error ''Failed to get UploadId from response'')
                      | Some uploadId \<Rightarrow>
                          if uploadId = [] then Inl (Error ''Failed to get UploadId from response'')
                          else Inr uploadId))"
proof -
  have "map_of [(''Host'', endpointHost config), (''X-Amz-Date'', getAmzDate P (tick w)),
       (''Content-Type'', contentType),
       (''X-Amz-Content-Sha256'', sha256 P (Text []))] ''X-Amz-Date'' = Some (getAmzDate P (tick w))"
    by simp
  from createAwsSignature_dated[OF this]
  obtain a where a: "createAwsSignature P ''POST'' (''/'' @ bucketName config @ ''/'' @ fileName)
      [(''Host'', endpointHost config), (''X-Amz-Date'', getAmzDate P (tick w)),
       (''Content-Type'', contentType),
       (''X-Amz-Content-Sha256'', sha256 P (Text []))] config (Text []) [(''uploads'', [])] = Inr a"
    by blast
  define req where "req = \<lparr>reqMethod = ''POST'',
      reqUrl = (''https://'' @ endpointHost config) @ (''/'' @ bucketName config @ ''/'' @ fileName) @ ''?uploads'',
      reqHeaders = [(''Host'', endpointHost config), (''X-Amz-Date'', getAmzDate P (tick w)),
        (''Content-Type'', contentType), (''X-Amz-Content-Sha256'', sha256 P (Text []))] @
        [(''Authorization'', a)],
      reqBody = None\<rparr>"
  have "sent (snd (initiateMultipartUpload P net config fileName contentType w)) = sent w @ [req] \<and>
        fst (initiateMultipartUpload P net config fileName contentType w) =
           (case net (sent w) req of
              NetworkFailure \<Rightarrow> Inl (TypeError ''Failed to fetch'')
            | Response st stx etag body \<Rightarrow>
                if \<not> ok st then Inl (Error (''Failed to initiate multipart upload: '' @ stx))
                else (case uploadIdText P body of
                        None \<Rightarrow> Inl (Error ''Failed to get UploadId from response'')
                      | Some uploadId \<Rightarrow>
                          if uploadId = [] then Inl (Error ''Failed to get UploadId from response'')
                          else Inr uploadId))"
    unfolding initiateMultipartUpload_def Let_def a req_def[symmetric] sum.case
    by (cases "net (sent w) req") (simp_all add: transmit_def split: option.splits)
  moreover have "reqMethod req = ''POST''"
    "reqUrl req = ''https://'' @ endpointHost config @ ''/'' @ bucketName config @ ''/'' @ fileName @
           ''?uploads''"
    by (simp_all add: req_def)
  ultimately show ?thesis by blast
qed

lemma uploadPart_sent:
  "\<exists>req. sent (snd (uploadPart P net config fileName uploadId partNumber body w)) = sent w @ [req] \<and>
         reqMethod req = ''PUT'' \<and>
         reqUrl req = ''https://'' @ endpointHost config @ ''/'' @ bucketName config @ ''/'' @ fileName @
           ''?partNumber='' @ showNat partNumber @ ''&uploadId='' @ uploadId \<and>
         reqBody req = Some (Buffer body) \<and>
         fst (uploadPart P net config fileName uploadId partNumber body w) =
           (case net (sent w) req of
              NetworkFailure \<Rightarrow> Inl (Error ''Network error during part upload'')
            | Response st stx etag text \<Rightarrow>
                if 200 \<le> st \<and> st < 300
                then (case etag of
                        None \<Rightarrow> Inl (Error ''ETag not found in response'')
                      | Some e \<Rightarrow> if e = [] then Inl (Error ''ETag not found in response'') else Inr e)
                else Inl (Error (''Part upload failed: '' @ showNat st @ '' '' @ stx)))"
proof -
  have "map_of [(''Host'', endpointHost config), (''X-Amz-Date'', getAmzDate P (tick w)),
       (''X-Amz-Content-Sha256'', sha256 P (Buffer body))] ''X-Amz-Date'' = Some (getAmzDate P (tick w))"
    by simp
  from createAwsSignature_dated[OF this]
  obtain a where a: "createAwsSignature P ''PUT'' (''/'' @ bucketName config @ ''/'' @ fileName)
      [(''Host'', endpointHost config), (''X-Amz-Date'', getAmzDate P (tick w)),
       (''X-Amz-Content-Sha256'', sha256 P (Buffer body))] config (Buffer body)
      [(''partNumber'', showNat partNumber), (''uploadId'', uploadId)] = Inr a"
    by blast
  define req where "req = \<lparr>reqMethod = ''PUT'',
      reqUrl = (''https://'' @ endpointHost config) @ (''/'' @ bucketName config @ ''/'' @ fileName) @
        ''?partNumber='' @ showNat partNumber @ ''&uploadId='' @ uploadId,
      reqHeaders = [(''Host'', endpointHost config), (''X-Amz-Date'', getAmzDate P (tick w)),
        (''X-Amz-Content-Sha256'', sha256 P (Buffer body))] @ [(''Authorization'', a)],
      reqBody = Some (Buffer body)\<rparr>"
  have "sent (snd (uploadPart P net config fileName uploadId partNumber body w)) = sent w @ [req] \<and>
        fst (uploadPart P net config fileName uploadId partNumber body w) =
           (case net (sent w) req of
              NetworkFailure \<Rightarrow> Inl (Error ''Network error during part upload'')
            | Response st stx etag text \<Rightarrow>
                if 200 \<le> st \<and> st < 300
                then (case etag of
                        None \<Rightarrow> Inl (Error ''ETag not found in response'')
                      | Some e \<Rightarrow> if e = [] then Inl (Error ''ETag not found in response'') else Inr e)
                else Inl (Error (''Part upload failed: '' @ showNat st @ '' '' @ stx)))"
    unfolding uploadPart_def Let_def a req_def[symmetric] sum.case
    by (cases "net (sent w) req") (simp_all add: transmit_def split: option.splits)
  moreover have "reqMethod req = ''PUT''"
    "reqUrl req = ''https://'' @ endpointHost config @ ''/'' @ bucketName config @ ''/'' @ fileName @
           ''?partNumber='' @ showNat partNumber @ ''&uploadId='' @ uploadId"
    "reqBody req = Some (Buffer body)"
    by (simp_all add: req_def)
  ultimately show ?thesis by blast
qed

lemma completeMultipartUpload_sent:
  "\<exists>req. sent (snd (completeMultipartUpload P net config fileName uploadId parts w)) = sent w @ [req] \<and>
         reqMethod req = ''POST'' \<and>
         reqUrl req = ''https://'' @ endpointHost config @ ''/'' @ bucketName config @ ''/'' @ fileName @
           ''?uploadId='' @ uploadId \<and>
         reqBody req = Some (Text (completeXmlBody parts)) \<and>
         fst (completeMultipartUpload P net config fileName uploadId parts w) =
           (case net (sent w) req of
              NetworkFailure \<Rightarrow> Inl (TypeError ''Failed to fetch'')
            | Response st stx etag body \<Rightarrow>
                if \<not> ok st then Inl (Error (''Failed to complete multipart upload: '' @ stx))
                else Inr ())"
proof -
  have "map_of [(''Host'', endpointHost config), (''X-Amz-Date'', getAmzDate P (tick w)),
       (''Content-Type'', ''application/xml''),
       (''X-Amz-Content-Sha256'', sha256 P (Text (completeXmlBody parts)))] ''X-Amz-Date'' =
     Some (getAmzDate P (tick w))"
    by simp
  from createAwsSignature_dated[OF this]
  obtain a where a: "createAwsSignature P ''POST'' (''/'' @ bucketName config @ ''/'' @ fileName)
      [(''Host'', endpointHost config), (''X-Amz-Date'', getAmzDate P (tick w)),
       (''Content-Type'', ''application/xml''),
       (''X-Amz-Content-Sha256'', sha256 P (Text (completeXmlBody parts)))] config
      (Text (completeXmlBody parts)) [(''uploadId'', uploadId)] = Inr a"
    by blast
  show ?thesis
    unfolding completeMultipartUpload_def Let_def a
    by (simp add: transmit_def split: response.splits)
qed

lemma adds_one:
  "(\<And>w. \<exists>req. sent (snd (fn w)) = sent w @ [req] \<and> Q req) \<Longrightarrow> adds Q fn"
proof -
  assume one: "\<And>w. \<exists>req. sent (snd (fn w)) = sent w @ [req] \<and> Q req"
  show "adds Q fn"
    unfolding adds_def
  proof
    fix w
    from one[of w] obtain req where "sent (snd (fn w)) = sent w @ [req]" "Q req"
      by blast
    then show "\<exists>rest. sent (snd (fn w)) = sent w @ rest \<and> list_all Q rest"
      by (intro exI[of _ "[req]"]) simp
  qed
qed

lemma adds_abortMultipartUpload:
  "adds (\<lambda>r. reqMethod r = ''DELETE'') (abortMultipartUpload P net config fileName uploadId)"
  by (rule adds_one) (use abortMultipartUpload_sent in blast)

lemma adds_initiateMultipartUpload:
  "adds (\<lambda>r. reqMethod r = ''POST'') (initiateMultipartUpload P net config fileName contentType)"
  by (rule adds_one) (use initiateMultipartUpload_sent in blast)

lemma adds_uploadPart:
  "adds (\<lambda>r. reqMethod r = ''PUT'') (uploadPart P net config fileName uploadId partNumber body)"
  by (rule adds_one) (use uploadPart_sent in blast)

lemma adds_completeMultipartUpload:
  "adds (\<lambda>r. reqMethod r = ''POST'') (completeMultipartUpload P net config fileName uploadId parts)"
  by (rule adds_one) (use completeMultipartUpload_sent in blast)

section \<open>Properties of the pool\<close>

lemma chosen_in: "executing \<noteq> [] \<Longrightarrow> chosen pick executing \<in> set executing"
  by (simp add: chosen_def)

lemma poolInv_start: "poolInv items fn 0 [] (replicate (length items) None)"
  by (simp add: poolInv_def)

lemma poolInv_launch:
  assumes "poolInv items fn index executing results" and "index < length items"
  shows "poolInv items fn (Suc index) (executing @ [index]) results"
  using assms unfolding poolInv_def
  by (auto simp: less_Suc_eq Suc_le_eq dest: less_imp_not_eq)

lemma poolInv_settle:
  assumes inv: "poolInv items fn index executing results"
    and i: "i \<in> set executing"
    and run: "fn (items ! i) i w = (Inr res, w')"
  shows "poolInv items fn index (remove1 i executing) (results[i := Some res])"
proof -
  from inv i have bound: "i < index" "index \<le> length items" "length results = length items"
    and dist: "distinct executing"
    by (auto simp: poolInv_def)
  have "\<forall>j < length items. ((results[i := Some res]) ! j = None) =
      (index \<le> j \<or> j \<in> set (remove1 i executing))"
  proof (intro allI impI)
    fix j assume j: "j < length items"
    show "((results[i := Some res]) ! j = None) = (index \<le> j \<or> j \<in> set (remove1 i executing))"
    proof (cases "j = i")
      case True
      with bound dist show ?thesis by simp
    next
      case False
      with inv j dist show ?thesis by (simp add: poolInv_def)
    qed
  qed
  moreover have "\<forall>j < length items. \<forall>r. (results[i := Some res]) ! j = Some r \<longrightarrow>
      (\<exists>w0 w1. fn (items ! j) j w0 = (Inr r, w1))"
  proof (intro allI impI)
    fix j r assume j: "j < length items" and r: "(results[i := Some res]) ! j = Some r"
    show "\<exists>w0 w1. fn (items ! j) j w0 = (Inr r, w1)"
    proof (cases "j = i")
      case True
      with r bound have "r = res" by simp
      with run True show ?thesis by blast
    next
      case False
      with r inv j show ?thesis by (simp add: poolInv_def)
    qed
  qed
  ultimately show ?thesis
    using inv dist by (auto simp: poolInv_def)
qed

lemma map_filter_all_Some:
  "\<forall>i < length xs. xs ! i \<noteq> None \<Longrightarrow> List.map_filter (\<lambda>r. r) xs = map the xs"
proof (induction xs)
  case Nil
  show ?case by (simp add: List.map_filter_simps)
next
  case (Cons x xs)
  from Cons.prems have "x \<noteq> None" by auto
  moreover from Cons.prems have "\<forall>i < length xs. xs ! i \<noteq> None" by auto
  ultimately show ?case using Cons.IH by (auto simp: List.map_filter_simps)
qed


lemma asyncPoolLoop_launch_settle:
  assumes "index < length items" and "concurrency \<le> length (executing @ [index])"
    and "fn (items ! chosen pick (executing @ [index])) (chosen pick (executing @ [index])) w = (r, w1)"
  shows "asyncPoolLoop concurrency items fn pick index executing results w =
     (case r of
        Inl e \<Rightarrow> (Inl e, w1)
      | Inr res \<Rightarrow>
          asyncPoolLoop concurrency items fn pick (index + 1)
            (remove1 (chosen pick (executing @ [index])) (executing @ [index]))
            (results[chosen pick (executing @ [index]) := Some res]) w1)"
  using assms by (subst asyncPoolLoop.simps) (simp add: Let_def split: sum.splits)

lemma asyncPoolLoop_launch:
  assumes "index < length items" and "\<not> concurrency \<le> length (executing @ [index])"
  shows "asyncPoolLoop concurrency items fn pick index executing results w =
     asyncPoolLoop concurrency items fn pick (index + 1) (executing @ [index]) results w"
  using assms by (subst asyncPoolLoop.simps) (simp add: Let_def)

lemma asyncPoolLoop_done:
  assumes "\<not> index < length items"
  shows "asyncPoolLoop concurrency items fn pick index [] results w =
     (Inr (List.map_filter (\<lambda>r. r) results), w)"
  using assms by (subst asyncPoolLoop.simps) simp

lemma asyncPoolLoop_drain:
  assumes "\<not> index < length items" and "executing \<noteq> []"
    and "fn (items ! chosen pick executing) (chosen pick executing) w = (r, w1)"
  shows "asyncPoolLoop concurrency items fn pick index executing results w =
     (case r of
        Inl e \<Rightarrow> (Inl e, w1)
      | Inr res \<Rightarrow>
          asyncPoolLoop concurrency items fn pick index (remove1 (chosen pick executing) executing)
            (results[chosen pick executing := Some res]) w1)"
  using assms by (subst asyncPoolLoop.simps) (simp add: Let_def split: sum.splits)

lemma asyncPoolLoop_results:
  "poolInv items fn index executing results \<Longrightarrow>
   asyncPoolLoop concurrency items fn pick index executing results w = (Inr rs, w') \<Longrightarrow>
   length rs = length items \<and>
   (\<forall>i < length items. \<exists>w0 w1. fn (items ! i) i w0 = (Inr (rs ! i), w1))"
proof (induction concurrency items fn pick index executing results w rule: asyncPoolLoop.induct)
  case (1 concurrency items fn pick index executing results w)
  note inv = "1.prems"(1) and res = "1.prems"(2)
  show ?case
  proof (cases "index < length items")
    case True
    let ?ex = "executing @ [index]"
    have inv': "poolInv items fn (Suc index) ?ex results"
      by (rule poolInv_launch[OF inv True])
    show ?thesis
    proof (cases "concurrency \<le> length ?ex")
      case full: True
      let ?i = "chosen pick ?ex"
      have iin: "?i \<in> set ?ex" by (rule chosen_in) simp
      obtain r w1 where run: "fn (items ! ?i) ?i w = (r, w1)"
        by (cases "fn (items ! ?i) ?i w")
      note step = asyncPoolLoop_launch_settle[where fn = fn and pick = pick and w = w and results = results, OF True full run]
      show ?thesis
      proof (cases r)
        case (Inl e)
        with step res show ?thesis by simp
      next
        case (Inr v)
        from poolInv_settle[OF inv' iin] run Inr
        have "poolInv items fn (index + 1) (remove1 ?i ?ex) (results[?i := Some v])" by simp
        moreover from step res Inr
        have "asyncPoolLoop concurrency items fn pick (index + 1) (remove1 ?i ?ex)
            (results[?i := Some v]) w1 = (Inr rs, w')" by simp
        ultimately show ?thesis
          using "1.IH"(1)[OF True refl full refl run[symmetric] Inr] by blast
      qed
    next
      case notfull: False
      from asyncPoolLoop_launch[OF True notfull, where fn = fn and pick = pick and results = results and w = w] res
      have "asyncPoolLoop concurrency items fn pick (index + 1) ?ex results w = (Inr rs, w')"
        by simp
      with inv' show ?thesis
        using "1.IH"(2)[OF True refl notfull] by simp
    qed
  next
    case False
    show ?thesis
    proof (cases "executing = []")
      case True
      from asyncPoolLoop_done[OF False, where concurrency = concurrency and fn = fn and pick = pick and results = results and w = w] res True
      have rs: "rs = List.map_filter (\<lambda>r. r) results" by simp
      from inv False True have all: "\<forall>i < length results. results ! i \<noteq> None"
        and len: "length results = length items"
        by (auto simp: poolInv_def)
      from map_filter_all_Some[OF all] rs have rs': "rs = map the results" by simp
      have "\<exists>w0 w1. fn (items ! i) i w0 = (Inr (rs ! i), w1)" if "i < length items" for i
      proof -
        from that all len obtain v where v: "results ! i = Some v" by auto
        with that len rs' have "rs ! i = v" by simp
        with inv that v show ?thesis by (auto simp: poolInv_def)
      qed
      with rs' len show ?thesis by simp
    next
      case nonempty: False
      let ?i = "chosen pick executing"
      have iin: "?i \<in> set executing" by (rule chosen_in[OF nonempty])
      obtain r w1 where run: "fn (items ! ?i) ?i w = (r, w1)"
        by (cases "fn (items ! ?i) ?i w")
      note step = asyncPoolLoop_drain[where fn = fn and pick = pick and w = w and results = results and concurrency = concurrency, OF False nonempty run]
      show ?thesis
      proof (cases r)
        case (Inl e)
        with step res show ?thesis by simp
      next
        case (Inr v)
        from poolInv_settle[OF inv iin] run Inr
        have "poolInv items fn index (remove1 ?i executing) (results[?i := Some v])" by simp
        moreover from step res Inr
        have "asyncPoolLoop concurrency items fn pick index (remove1 ?i executing)
            (results[?i := Some v]) w1 = (Inr rs, w')" by simp
        ultimately show ?thesis
          using "1.IH"(3)[OF False nonempty refl run[symmetric] Inr] by blast
      qed
    qed
  qed
qed



lemma asyncPoolLoop_adds_aux:
  "(\<And>x i. adds Q (fn x i)) \<Longrightarrow>
   \<exists>rest. sent (snd (asyncPoolLoop concurrency items fn pick index executing results w)) =
            sent w @ rest \<and> list_all Q rest"
proof (induction concurrency items fn pick index executing results w rule: asyncPoolLoop.induct)
  case (1 concurrency items fn pick index executing results w)
  note ad = "1.prems"
  have task: "\<exists>rest. sent w1 = sent w @ rest \<and> list_all Q rest" if "fn x i w = (r, w1)" for x i r w1
    using addsD[OF ad, of x i w] that by simp
  show ?case
  proof (cases "index < length items")
    case True
    let ?ex = "executing @ [index]"
    show ?thesis
    proof (cases "concurrency \<le> length ?ex")
      case full: True
      let ?i = "chosen pick ?ex"
      obtain r w1 where run: "fn (items ! ?i) ?i w = (r, w1)"
        by (cases "fn (items ! ?i) ?i w")
      note step = asyncPoolLoop_launch_settle[where fn = fn and pick = pick and w = w
          and results = results, OF True full run]
      from task[OF run] obtain rest1 where r1: "sent w1 = sent w @ rest1" "list_all Q rest1"
        by blast
      show ?thesis
      proof (cases r)
        case (Inl e1)
        with step r1 show ?thesis by simp
      next
        case (Inr v)
        from "1.IH"(1)[OF True refl full refl run[symmetric] Inr ad]
        obtain rest2 where "sent (snd (asyncPoolLoop concurrency items fn pick (index + 1)
            (remove1 ?i ?ex) (results[?i := Some v]) w1)) = sent w1 @ rest2" "list_all Q rest2"
          by blast
        with step Inr r1 show ?thesis by simp
      qed
    next
      case notfull: False
      from "1.IH"(2)[OF True refl notfull ad]
        asyncPoolLoop_launch[OF True notfull, where fn = fn and pick = pick
          and results = results and w = w]
      show ?thesis by simp
    qed
  next
    case False
    show ?thesis
    proof (cases "executing = []")
      case True
      with asyncPoolLoop_done[OF False, where concurrency = concurrency and fn = fn
          and pick = pick and results = results and w = w]
      show ?thesis by simp
    next
      case nonempty: False
      let ?i = "chosen pick executing"
      obtain r w1 where run: "fn (items ! ?i) ?i w = (r, w1)"
        by (cases "fn (items ! ?i) ?i w")
      note step = asyncPoolLoop_drain[where fn = fn and pick = pick and w = w
          and results = results and concurrency = concurrency, OF False nonempty run]
      from task[OF run] obtain rest1 where r1: "sent w1 = sent w @ rest1" "list_all Q rest1"
        by blast
      show ?thesis
      proof (cases r)
        case (Inl e1)
        with step r1 show ?thesis by simp
      next
        case (Inr v)
        from "1.IH"(3)[OF False nonempty refl run[symmetric] Inr ad]
        obtain rest2 where "sent (snd (asyncPoolLoop concurrency items fn pick index
            (remove1 ?i executing) (results[?i := Some v]) w1)) = sent w1 @ rest2" "list_all Q rest2"
          by blast
        with step Inr r1 show ?thesis by simp
      qed
    qed
  qed
qed

lemma adds_asyncPool:
  "(\<And>x i. adds Q (fn x i)) \<Longrightarrow> adds Q (asyncPool concurrency items fn pick)"
  unfolding adds_def asyncPool_def using asyncPoolLoop_adds_aux[unfolded adds_def] by blast

lemma asyncPool_results:
  "asyncPool concurrency items fn pick w = (Inr rs, w') \<Longrightarrow>
   length rs = length items \<and>
   (\<forall>i < length items. \<exists>w0 w1. fn (items ! i) i w0 = (Inr (rs ! i), w1))"
  unfolding asyncPool_def by (rule asyncPoolLoop_results[OF poolInv_start])


section \<open>Properties of the upload paths\<close>

text \<open>
  An operation that sends one request per attempt, of kind \<open>Q\<close>, and whose outcome is a
  function \<open>out\<close> of the response to it. Retried, it sends between one and
  \<open>retries + 1\<close> such requests; the outcome is that of the last one, which is the only
  one that can have succeeded.
\<close>

lemma retry_attempts:
  assumes one: "\<And>w. \<exists>req. sent (snd (fn w)) = sent w @ [req] \<and> Q req \<and>
                      fst (fn w) = out (net (sent w) req)"
  shows "\<exists>rest. sent (snd (retry fn retries delay backoff w)) = sent w @ rest \<and>
           rest \<noteq> [] \<and> int (length rest) \<le> max 0 retries + 1 \<and> list_all Q rest \<and>
           fst (retry fn retries delay backoff w) = out (net (sent w @ butlast rest) (last rest)) \<and>
           (\<forall>v. out (net (sent w) (hd rest)) = Inr v \<longrightarrow> length rest = 1)"
  using one
proof (induction fn retries delay backoff w rule: retry.induct)
  case (1 fn retries delay backoff w)
  note one = "1.prems"
  obtain r w1 where fw: "fn w = (r, w1)" by (cases "fn w")
  from one[of w] fw obtain req where req: "sent w1 = sent w @ [req]" "Q req"
      "r = out (net (sent w) req)"
    by auto
  show ?case
  proof (cases r)
    case (Inr v)
    with fw have "retry fn retries delay backoff w = (Inr v, w1)"
      by (simp add: retry_success)
    with req Inr show ?thesis
      by (intro exI[of _ "[req]"]) simp
  next
    case (Inl err)
    show ?thesis
    proof (cases "retries \<le> 0")
      case True
      with fw Inl have "retry fn retries delay backoff w = (Inl err, w1)"
        by (simp add: retry_exhausted)
      with req Inl show ?thesis
        by (intro exI[of _ "[req]"]) simp
    next
      case False
      with fw Inl have eq: "retry fn retries delay backoff w =
          retry fn (retries - 1) (delay * backoff) backoff (sleep delay w1)"
        by (simp add: retry_again)
      from "1.IH"[OF fw[symmetric] Inl False one]
      obtain rest where rest:
        "sent (snd (retry fn (retries - 1) (delay * backoff) backoff (sleep delay w1))) =
           sent (sleep delay w1) @ rest"
        "rest \<noteq> []" "int (length rest) \<le> max 0 (retries - 1) + 1" "list_all Q rest"
        "fst (retry fn (retries - 1) (delay * backoff) backoff (sleep delay w1)) =
           out (net (sent (sleep delay w1) @ butlast rest) (last rest))"
        by blast
      from rest req False Inl show ?thesis
        unfolding eq
        by (intro exI[of _ "req # rest"]) (auto simp: sleep_def)
    qed
  qed
qed

lemma retry_first:
  assumes "adds (\<lambda>r. True) fn" and "sent (snd (fn w)) = sent w @ [req]"
  shows "\<exists>rest. sent (snd (retry fn retries delay backoff w)) = sent w @ req # rest"
proof -
  obtain r w1 where fw: "fn w = (r, w1)" by (cases "fn w")
  with assms(2) have w1: "sent w1 = sent w @ [req]" by simp
  show ?thesis
  proof (cases r)
    case (Inr v)
    with fw w1 show ?thesis by (simp add: retry_success)
  next
    case (Inl err)
    show ?thesis
    proof (cases "retries \<le> 0")
      case True
      with fw Inl w1 show ?thesis by (simp add: retry_exhausted)
    next
      case False
      from retry_adds_aux[OF assms(1), of "retries - 1" "delay * backoff" backoff "sleep delay w1"]
      obtain rest where "sent (snd (retry fn (retries - 1) (delay * backoff) backoff (sleep delay w1))) =
          sent (sleep delay w1) @ rest"
        by blast
      with fw Inl False w1 show ?thesis by (simp add: retry_again)
    qed
  qed
qed


lemma list_all_eq_replicate: "list_all (\<lambda>r. r = x) xs \<Longrightarrow> xs = replicate (length xs) x"
  by (induction xs) auto

lemma uploadSmallFile_outcome:
  "fst (uploadSmallFile net target headers body w) =
     (case net (sent w) \<lparr>reqMethod = ''PUT'', reqUrl = target, reqHeaders = headers,
                           reqBody = Some (Buffer body)\<rparr> of
        NetworkFailure \<Rightarrow> Inl (Error ''Network error during upload'')
      | Response st stx etag text \<Rightarrow>
          if 200 \<le> st \<and> st < 300 then Inr ()
          else Inl (Error (''Upload failed: '' @ showNat st @ '' '' @ stx)))"
  by (cases "net (sent w) \<lparr>reqMethod = ''PUT'', reqUrl = target, reqHeaders = headers,
                           reqBody = Some (Buffer body)\<rparr>")
     (simp_all add: uploadSmallFile_def transmit_def)

lemma singleUpload_requests:
  "\<exists>k req. 1 \<le> k \<and> k \<le> 4 \<and>
      sent (snd (singleUpload P net config fileName f w)) = sent w @ replicate k req \<and>
      reqMethod req = ''PUT'' \<and>
      reqUrl req = ''https://'' @ endpointHost config @ ''/'' @ bucketName config @ ''/'' @ fileName \<and>
      reqBody req = Some (Buffer (file_bytes f)) \<and>
      map_of (reqHeaders req) ''X-Amz-Content-Sha256'' = Some (sha256 P (Buffer (file_bytes f))) \<and>
      ((\<exists>st stx etag body. net (sent w) req = Response st stx etag body \<and> 200 \<le> st \<and> st < 300) \<longrightarrow>
         k = 1)"
proof -
  define headers where "headers = [(''Host'', endpointHost config), (''X-Amz-Date'', getAmzDate P (tick w)),
      (''X-Amz-Content-Sha256'', sha256 P (Buffer (file_bytes f))),
      (''Content-Type'', if file_type f \<noteq> [] then file_type f else ''application/octet-stream'')]"
  have "map_of headers ''X-Amz-Date'' = Some (getAmzDate P (tick w))"
    by (simp add: headers_def)
  from createAwsSignature_dated[OF this]
  obtain a where a: "createAwsSignature P ''PUT'' (''/'' @ bucketName config @ ''/'' @ fileName)
      headers config (Buffer (file_bytes f)) [] = Inr a"
    by blast
  define req where "req = \<lparr>reqMethod = ''PUT'',
      reqUrl = (''https://'' @ endpointHost config) @ (''/'' @ bucketName config @ ''/'' @ fileName),
      reqHeaders = headers @ [(''Authorization'', a)],
      reqBody = Some (Buffer (file_bytes f))\<rparr>"
  define out :: "response \<Rightarrow> js_error + unit" where "out = (\<lambda>resp. case resp of
        NetworkFailure \<Rightarrow> Inl (Error ''Network error during upload'')
      | Response st stx etag text \<Rightarrow>
          if 200 \<le> st \<and> st < 300 then Inr ()
          else Inl (Error (''Upload failed: '' @ showNat st @ '' '' @ stx)))"
  have unf: "singleUpload P net config fileName f w =
      retry (uploadSmallFile net (reqUrl req) (reqHeaders req) (file_bytes f)) 3 1000 2 w"
    unfolding singleUpload_def Let_def headers_def[symmetric] a req_def retryDefault_def
    by simp
  have "\<exists>r. sent (snd (uploadSmallFile net (reqUrl req) (reqHeaders req) (file_bytes f) w')) =
          sent w' @ [r] \<and> r = req \<and>
          fst (uploadSmallFile net (reqUrl req) (reqHeaders req) (file_bytes f) w') =
          out (net (sent w') r)" for w'
    by (simp add: uploadSmallFile_sent uploadSmallFile_outcome out_def req_def)
  from retry_attempts[of "uploadSmallFile net (reqUrl req) (reqHeaders req) (file_bytes f)"
      "\<lambda>r. r = req" out net 3 1000 2 w, OF this]
  obtain rest where rest:
    "sent (snd (singleUpload P net config fileName f w)) = sent w @ rest"
    "rest \<noteq> []" "int (length rest) \<le> max 0 3 + 1" "list_all (\<lambda>r. r = req) rest"
    "\<forall>v. out (net (sent w) (hd rest)) = Inr v \<longrightarrow> length rest = 1"
    unfolding unf by blast
  from list_all_eq_replicate[OF rest(4)] have rep: "rest = replicate (length rest) req" .
  with rest(2) have hd: "hd rest = req" by (cases rest) auto
  have "(\<exists>st stx etag body. net (sent w) req = Response st stx etag body \<and> 200 \<le> st \<and> st < 300) \<longrightarrow>
         length rest = 1"
    using rest(5) hd by (auto simp: out_def)
  moreover have "1 \<le> length rest" "length rest \<le> 4"
    using rest(2,3) by (simp_all add: Suc_le_eq)
  moreover have "sent (snd (singleUpload P net config fileName f w)) = sent w @ replicate (length rest) req"
    using rest(1) rep by simp
  moreover have "reqMethod req = ''PUT''"
    "reqUrl req = ''https://'' @ endpointHost config @ ''/'' @ bucketName config @ ''/'' @ fileName"
    "reqBody req = Some (Buffer (file_bytes f))"
    "map_of (reqHeaders req) ''X-Amz-Content-Sha256'' = Some (sha256 P (Buffer (file_bytes f)))"
    by (simp_all add: req_def headers_def)
  ultimately show ?thesis by blast
qed


lemma adds_seq:
  assumes "adds Q fn" and "\<And>v. adds Q (g v)"
  shows "adds Q (\<lambda>w. case fn w of (Inl e, w') \<Rightarrow> (Inl e, w') | (Inr v, w') \<Rightarrow> g v w')"
  unfolding adds_def
proof
  fix w
  obtain r w1 where fw: "fn w = (r, w1)" by (cases "fn w")
  from addsD[OF assms(1), of w] fw obtain rest1 where r1: "sent w1 = sent w @ rest1" "list_all Q rest1"
    by auto
  show "\<exists>rest. sent (snd (case fn w of (Inl e, w') \<Rightarrow> (Inl e, w') | (Inr v, w') \<Rightarrow> g v w')) =
      sent w @ rest \<and> list_all Q rest"
  proof (cases r)
    case (Inl e)
    with fw r1 show ?thesis by simp
  next
    case (Inr v)
    from addsD[OF assms(2), of v w1] obtain rest2 where "sent (snd (g v w1)) = sent w1 @ rest2"
      "list_all Q rest2" by blast
    with fw Inr r1 show ?thesis by simp
  qed
qed

lemma snd_uploadPartTask:
  "snd (uploadPartTask P net config fileName uploadId f i index w) =
   snd (retryDefault (uploadPart P net config fileName uploadId (i + 1) (partChunk f i)) w)"
  by (simp add: uploadPartTask_def Let_def split: prod.splits sum.splits)

lemma adds_uploadPartTask:
  "adds (\<lambda>r. reqMethod r = ''PUT'') (uploadPartTask P net config fileName uploadId f i index)"
  using adds_retryDefault[OF adds_uploadPart, of P net config fileName uploadId "i + 1" "partChunk f i"]
  unfolding adds_def snd_uploadPartTask by blast

lemma adds_uploadAllParts:
  "adds (\<lambda>r. reqMethod r \<noteq> ''DELETE'') (uploadAllParts P net pick config fileName uploadId f)"
proof -
  have eq: "uploadAllParts P net pick config fileName uploadId f =
      (\<lambda>w. case asyncPool MAX_CONCURRENT_PARTS [0..<totalPartsOf (file_size f)]
                (uploadPartTask P net config fileName uploadId f) pick w of
              (Inl e, w') \<Rightarrow> (Inl e, w')
            | (Inr parts, w') \<Rightarrow>
                retryDefault (completeMultipartUpload P net config fileName uploadId
                  (sort_key PartNumber parts)) w')"
    by (rule ext) (simp add: uploadAllParts_def Let_def)
  have "adds (\<lambda>r. reqMethod r \<noteq> ''DELETE'') (uploadPartTask P net config fileName uploadId f i index)"
    for i index
    by (rule adds_weaken[OF adds_uploadPartTask]) simp
  then have pool: "adds (\<lambda>r. reqMethod r \<noteq> ''DELETE'')
      (asyncPool MAX_CONCURRENT_PARTS [0..<totalPartsOf (file_size f)]
         (uploadPartTask P net config fileName uploadId f) pick)"
    by (rule adds_asyncPool)
  have "adds (\<lambda>r. reqMethod r \<noteq> ''DELETE'')
      (retryDefault (completeMultipartUpload P net config fileName uploadId parts))" for parts
    by (rule adds_retryDefault, rule adds_weaken[OF adds_completeMultipartUpload]) simp
  from adds_seq[OF pool this] show ?thesis
    unfolding eq by simp
qed

lemma multipartUpload_first_request:
  "\<exists>req rest. sent (snd (multipartUpload P net pick config fileName f w)) = sent w @ req # rest \<and>
      reqMethod req = ''POST'' \<and>
      reqUrl req = ''https://'' @ endpointHost config @ ''/'' @ bucketName config @ ''/'' @ fileName @
        ''?uploads''"
proof -
  define contentType where
    "contentType = (if file_type f \<noteq> [] then file_type f else ''application/octet-stream'')"
  let ?init = "initiateMultipartUpload P net config fileName contentType"
  from initiateMultipartUpload_sent[of P net config fileName contentType w]
  obtain req where req: "sent (snd (?init w)) = sent w @ [req]" "reqMethod req = ''POST''"
    "reqUrl req = ''https://'' @ endpointHost config @ ''/'' @ bucketName config @ ''/'' @ fileName @
        ''?uploads''"
    by blast
  have "adds (\<lambda>r. True) ?init"
    by (rule adds_weaken[OF adds_initiateMultipartUpload]) simp
  from retry_first[OF this req(1), of 3 1000 2]
  obtain rest1 where r1: "sent (snd (retryDefault ?init w)) = sent w @ req # rest1"
    unfolding retryDefault_def by blast
  obtain r w1 where run: "retryDefault ?init w = (r, w1)" by (cases "retryDefault ?init w")
  with r1 have w1: "sent w1 = sent w @ req # rest1" by simp
  have "\<exists>rest. sent (snd (multipartUpload P net pick config fileName f w)) = sent w @ req # rest"
  proof (cases r)
    case (Inl e)
    with run w1 show ?thesis
      by (simp add: multipartUpload_def contentType_def[symmetric] Let_def)
  next
    case (Inr uploadId)
    obtain r2 w2 where all: "uploadAllParts P net pick config fileName uploadId f w1 = (r2, w2)"
      by (cases "uploadAllParts P net pick config fileName uploadId f w1")
    from addsD[OF adds_uploadAllParts, of P net pick config fileName uploadId f w1] all
    obtain rest2 where w2: "sent w2 = sent w1 @ rest2" by auto
    show ?thesis
    proof (cases r2)
      case (Inr u)
      with run \<open>r = Inr uploadId\<close> all w1 w2 show ?thesis
        by (simp add: multipartUpload_def contentType_def[symmetric] Let_def)
    next
      case (Inl error)
      let ?w2' = "consoleError ''Multipart upload failed, aborting...'' error w2"
      obtain r3 w3 where ab: "retryDefault (abortMultipartUpload P net config fileName uploadId) ?w2' = (r3, w3)"
        by (cases "retryDefault (abortMultipartUpload P net config fileName uploadId) ?w2'")
      from addsD[OF adds_retryDefault[OF adds_abortMultipartUpload], of P net config fileName uploadId ?w2'] ab
      obtain rest3 where "sent w3 = sent ?w2' @ rest3" by auto
      with run \<open>r = Inr uploadId\<close> all Inl ab w1 w2 show ?thesis
        by (cases r3) (simp_all add: multipartUpload_def contentType_def[symmetric] Let_def)
    qed
  qed
  with req show ?thesis by blast
qed


lemma snd_uploadFileToR2:
  assumes "getR2Config P = Some config"
    and "sanitizeFileName (case customName of None \<Rightarrow> file_name f
           | Some n \<Rightarrow> if n \<noteq> [] then n else file_name f) = Inr sanitizedName"
    and "fileName = (if hashFilenames then hashFileName P sanitizedName (tick w) else sanitizedName)"
  shows "snd (uploadFileToR2 P net pick f hashFilenames customName w) =
     snd (if file_size f > MULTIPART_THRESHOLD then multipartUpload P net pick config fileName f w
          else singleUpload P net config fileName f w)"
  using assms by (simp add: uploadFileToR2_def Let_def split: prod.splits sum.splits)

text \<open>
  Claim C6. With a configuration and a usable file name, a file of at most 100 MB (exactly
  100 MB included) goes the single-object way: everything sent is one PUT request of the
  whole file, whose \<open>X-Amz-Content-Sha256\<close> header is the digest of the file's bytes;
  the retry policy may repeat that same request up to three times, and it is sent once when
  the first answer is a success. A file above 100 MB goes the multipart way: the first
  request sent is the POST that initiates a multipart upload.
\<close>

theorem uploadFileToR2_path:
  assumes "getR2Config P = Some config"
    and "sanitizeFileName (case customName of None \<Rightarrow> file_name f
           | Some n \<Rightarrow> if n \<noteq> [] then n else file_name f) = Inr sanitizedName"
    and "fileName = (if hashFilenames then hashFileName P sanitizedName (tick w) else sanitizedName)"
  shows "(file_size f \<le> 100 * 1024 * 1024 \<longrightarrow>
      (\<exists>k req. 1 \<le> k \<and> k \<le> 4 \<and>
         sent (snd (uploadFileToR2 P net pick f hashFilenames customName w)) = sent w @ replicate k req \<and>
         reqMethod req = ''PUT'' \<and>
         reqUrl req = ''https://'' @ endpointHost config @ ''/'' @ bucketName config @ ''/'' @ fileName \<and>
         reqBody req = Some (Buffer (file_bytes f)) \<and>
         map_of (reqHeaders req) ''X-Amz-Content-Sha256'' = Some (sha256 P (Buffer (file_bytes f))) \<and>
         ((\<exists>st stx etag body. net (sent w) req = Response st stx etag body \<and> 200 \<le> st \<and> st < 300) \<longrightarrow>
            k = 1))) \<and>
    (file_size f > 100 * 1024 * 1024 \<longrightarrow>
      (\<exists>req rest.
         sent (snd (uploadFileToR2 P net pick f hashFilenames customName w)) = sent w @ req # rest \<and>
         reqMethod req = ''POST'' \<and>
         reqUrl req = ''https://'' @ endpointHost config @ ''/'' @ bucketName config @ ''/'' @ fileName @
           ''?uploads''))"
proof (intro conjI impI)
  assume "file_size f \<le> 100 * 1024 * 1024"
  then have "snd (uploadFileToR2 P net pick f hashFilenames customName w) =
      snd (singleUpload P net config fileName f w)"
    using snd_uploadFileToR2[OF assms] by (simp add: MULTIPART_THRESHOLD_def)
  then show "\<exists>k req. 1 \<le> k \<and> k \<le> 4 \<and>
         sent (snd (uploadFileToR2 P net pick f hashFilenames customName w)) = sent w @ replicate k req \<and>
         reqMethod req = ''PUT'' \<and>
         reqUrl req = ''https://'' @ endpointHost config @ ''/'' @ bucketName config @ ''/'' @ fileName \<and>
         reqBody req = Some (Buffer (file_bytes f)) \<and>
         map_of (reqHeaders req) ''X-Amz-Content-Sha256'' = Some (sha256 P (Buffer (file_bytes f))) \<and>
         ((\<exists>st stx etag body. net (sent w) req = Response st stx etag body \<and> 200 \<le> st \<and> st < 300) \<longrightarrow>
            k = 1)"
    using singleUpload_requests[of P net config fileName f w] by simp
next
  assume "file_size f > 100 * 1024 * 1024"
  then have "snd (uploadFileToR2 P net pick f hashFilenames customName w) =
      snd (multipartUpload P net pick config fileName f w)"
    using snd_uploadFileToR2[OF assms] by (simp add: MULTIPART_THRESHOLD_def)
  then show "\<exists>req rest.
         sent (snd (uploadFileToR2 P net pick f hashFilenames customName w)) = sent w @ req # rest \<and>
         reqMethod req = ''POST'' \<and>
         reqUrl req = ''https://'' @ endpointHost config @ ''/'' @ bucketName config @ ''/'' @ fileName @
           ''?uploads''"
    using multipartUpload_first_request[of P net pick config fileName f w] by simp
qed

lemmas sanitize_eval = sanitizeFileName_def isWhiteSpace_def isUnsafe_def isDotOrHyphen_def uri_eval

lemma sanitize_a_bin: "sanitizeFileName (units ''a.bin'') = Inr ''a.bin''"
  by (simp add: sanitize_eval)

theorem uploadFileToR2_path_witness:
  "(\<exists>req. sent (snd (uploadFileToR2 samplePlatform (\<lambda>history req. Response 200 ''OK'' None [])
        (\<lambda>executing. 0) \<lparr>file_name = units ''a.bin'', file_type = [], file_bytes = [1, 2, 3]\<rparr>
        False None initialWorld)) = [req] \<and>
      reqMethod req = ''PUT'' \<and>
      reqUrl req = ''https://acct.r2.cloudflarestorage.com/bucket/a.bin'' \<and>
      reqBody req = Some (Buffer [1, 2, 3]) \<and>
      map_of (reqHeaders req) ''X-Amz-Content-Sha256'' = Some (sha256 samplePlatform (Buffer [1, 2, 3]))) \<and>
   (\<exists>req rest. sent (snd (uploadFileToR2 samplePlatform (\<lambda>history req. Response 200 ''OK'' None [])
        (\<lambda>executing. 0)
        \<lparr>file_name = units ''a.bin'', file_type = [], file_bytes = replicate 104857601 7\<rparr>
        False None initialWorld)) = req # rest \<and>
      reqMethod req = ''POST'' \<and>
      reqUrl req = ''https://acct.r2.cloudflarestorage.com/bucket/a.bin?uploads'')"
proof -
  have cfg: "getR2Config samplePlatform = Some sampleConfig"
    by (simp add: getR2Config_def samplePlatform_def)
  have key: "''a.bin'' = (if False then hashFileName samplePlatform ''a.bin'' (tick initialWorld) else ''a.bin'')"
    by simp
  have n1: "sanitizeFileName (case None of None \<Rightarrow> file_name \<lparr>file_name = units ''a.bin'', file_type = [],
      file_bytes = [1, 2, 3]\<rparr> | Some n \<Rightarrow> if n \<noteq> [] then n else file_name \<lparr>file_name = units ''a.bin'',
      file_type = [], file_bytes = [1, 2, 3]\<rparr>) = Inr ''a.bin''"
    by (simp add: sanitize_a_bin)
  have n2: "sanitizeFileName (case None of None \<Rightarrow> file_name \<lparr>file_name = units ''a.bin'', file_type = [],
      file_bytes = replicate 104857601 7\<rparr> | Some n \<Rightarrow> if n \<noteq> [] then n else file_name \<lparr>file_name =
      units ''a.bin'', file_type = [], file_bytes = replicate 104857601 7\<rparr>) = Inr ''a.bin''"
    by (simp add: sanitize_a_bin)
  have small: "\<exists>req. sent (snd (uploadFileToR2 samplePlatform (\<lambda>history req. Response 200 ''OK'' None [])
        (\<lambda>executing. 0) \<lparr>file_name = units ''a.bin'', file_type = [], file_bytes = [1, 2, 3]\<rparr>
        False None initialWorld)) = [req] \<and>
      reqMethod req = ''PUT'' \<and>
      reqUrl req = ''https://acct.r2.cloudflarestorage.com/bucket/a.bin'' \<and>
      reqBody req = Some (Buffer [1, 2, 3]) \<and>
      map_of (reqHeaders req) ''X-Amz-Content-Sha256'' = Some (sha256 samplePlatform (Buffer [1, 2, 3]))"
    using uploadFileToR2_path[OF cfg n1 key, of "\<lambda>history req. Response 200 ''OK'' None []" "\<lambda>executing. 0"]
    by (auto simp: file_size_def initialWorld_def endpointHost_def sampleConfig_def)
  have big: "\<exists>req rest. sent (snd (uploadFileToR2 samplePlatform (\<lambda>history req. Response 200 ''OK'' None [])
        (\<lambda>executing. 0)
        \<lparr>file_name = units ''a.bin'', file_type = [], file_bytes = replicate 104857601 7\<rparr>
        False None initialWorld)) = req # rest \<and>
      reqMethod req = ''POST'' \<and>
      reqUrl req = ''https://acct.r2.cloudflarestorage.com/bucket/a.bin?uploads''"
    using uploadFileToR2_path[OF cfg n2 key, of "\<lambda>history req. Response 200 ''OK'' None []" "\<lambda>executing. 0"]
    by (auto simp: file_size_def initialWorld_def endpointHost_def sampleConfig_def)
  from small big show ?thesis by blast
qed

section \<open>Failure of a multipart upload\<close>






lemma ceiling_nat_div:
  assumes "0 < p"
  shows "nat \<lceil>real n / real p\<rceil> = (n + p - 1) div p"
proof -
  define q where "q = (n + p - 1) div p"
  have up: "n \<le> q * p"
  proof -
    have "n + p - 1 < (q + 1) * p"
      unfolding q_def using assms
      by (metis add.commute dividend_less_div_times mult.commute mult_Suc Suc_eq_plus1)
    then show ?thesis using assms by simp
  qed
  have low: "q * p < n + p"
  proof -
    have "q * p \<le> n + p - 1"
      unfolding q_def by simp
    then show ?thesis using assms by linarith
  qed
  have "\<lceil>real n / real p\<rceil> = int q"
  proof (rule ceiling_unique)
    have "real q * real p < real n + real p"
      using low by (metis of_nat_add of_nat_less_iff of_nat_mult)
    then have "(real q - 1) * real p < real n"
      by (simp add: algebra_simps)
    then show "real_of_int (int q) - 1 < real n / real p"
      using assms by (simp add: pos_less_divide_eq)
    have "real n \<le> real q * real p"
      using up by (metis of_nat_le_iff of_nat_mult)
    then show "real n / real p \<le> real_of_int (int q)"
      using assms by (simp add: pos_divide_le_eq)
  qed
  then show ?thesis by (simp add: q_def)
qed

lemma totalPartsOf_div: "totalPartsOf n = (n + PART_SIZE - 1) div PART_SIZE"
  unfolding totalPartsOf_def by (rule ceiling_nat_div) (simp add: PART_SIZE_def)

lemma totalPartsOf_sample: "totalPartsOf 104857601 = 11" "totalPartsOf 26214400 = 3"
  by (simp_all add: totalPartsOf_div PART_SIZE_def)













section \<open>Parts of a multipart upload\<close>

lemma totalPartsOf_bounds:
  assumes "0 < fileSize"
  shows "PART_SIZE * (totalPartsOf fileSize - 1) < fileSize" and "fileSize \<le> PART_SIZE * totalPartsOf fileSize"
    and "0 < totalPartsOf fileSize"
proof -
  have p: "0 < PART_SIZE" by (simp add: PART_SIZE_def)
  define q where "q = totalPartsOf fileSize"
  have q: "q = (fileSize + PART_SIZE - 1) div PART_SIZE"
    by (simp add: q_def totalPartsOf_div)
  have "fileSize + PART_SIZE - 1 < (q + 1) * PART_SIZE"
    unfolding q using p
    by (metis add.commute dividend_less_div_times mult.commute mult_Suc Suc_eq_plus1)
  then show up: "fileSize \<le> PART_SIZE * totalPartsOf fileSize"
    using p by (simp add: q_def mult.commute)
  with assms show pos: "0 < totalPartsOf fileSize"
    by (cases "totalPartsOf fileSize") auto
  have "q * PART_SIZE \<le> fileSize + PART_SIZE - 1"
    unfolding q by simp
  moreover from pos have "q * PART_SIZE = (q - 1) * PART_SIZE + PART_SIZE"
    by (cases q) (auto simp: q_def)
  ultimately have "(q - 1) * PART_SIZE < fileSize"
    using p assms by linarith
  then show "PART_SIZE * (totalPartsOf fileSize - 1) < fileSize"
    by (simp add: q_def mult.commute)
qed

lemma length_partChunk:
  assumes "0 < file_size f"
  shows "i < totalPartsOf (file_size f) - 1 \<Longrightarrow> length (partChunk f i) = PART_SIZE"
    and "length (partChunk f (totalPartsOf (file_size f) - 1)) =
      file_size f - PART_SIZE * (totalPartsOf (file_size f) - 1)"
proof -
  note b = totalPartsOf_bounds[OF assms]
  show "length (partChunk f (totalPartsOf (file_size f) - 1)) =
      file_size f - PART_SIZE * (totalPartsOf (file_size f) - 1)"
  proof -
    have "(totalPartsOf (file_size f) - 1) * PART_SIZE + PART_SIZE = PART_SIZE * totalPartsOf (file_size f)"
      using b(3) by (cases "totalPartsOf (file_size f)") (auto simp: mult.commute)
    with b(2) have "min ((totalPartsOf (file_size f) - 1) * PART_SIZE + PART_SIZE) (file_size f) = file_size f"
      by simp
    then show ?thesis
      by (simp add: partChunk_def slice_def Let_def file_size_def mult.commute)
  qed
  show "length (partChunk f i) = PART_SIZE" if "i < totalPartsOf (file_size f) - 1"
  proof -
    from that have "Suc i \<le> totalPartsOf (file_size f) - 1" by simp
    then have "PART_SIZE * Suc i \<le> PART_SIZE * (totalPartsOf (file_size f) - 1)"
      by (rule mult_le_mono2)
    with b(1) have "i * PART_SIZE + PART_SIZE < file_size f"
      by (simp add: mult.commute)
    then show ?thesis
      by (simp add: partChunk_def slice_def Let_def file_size_def)
  qed
qed


lemma uploadPartTask_success:
  "uploadPartTask P net config fileName uploadId f i index w0 = (Inr p, w1) \<Longrightarrow>
   PartNumber p = i + 1 \<and>
   retryDefault (uploadPart P net config fileName uploadId (i + 1) (partChunk f i)) w0 = (Inr (ETag p), w1)"
  by (cases "retryDefault (uploadPart P net config fileName uploadId (i + 1) (partChunk f i)) w0")
     (auto simp: uploadPartTask_def Let_def split: sum.splits)

lemma pool_parts:
  assumes "asyncPool MAX_CONCURRENT_PARTS [0..<n] (uploadPartTask P net config fileName uploadId f) pick w =
      (Inr parts, w')"
  shows "map PartNumber parts = [1..<Suc n]"
    and "\<forall>i<n. \<exists>w0 w1. retryDefault (uploadPart P net config fileName uploadId (i + 1) (partChunk f i)) w0 =
           (Inr (ETag (parts ! i)), w1)"
    and "sort_key PartNumber parts = parts"
proof -
  from asyncPool_results[OF assms]
  have len: "length parts = n"
    and each: "\<forall>i<n. \<exists>w0 w1. uploadPartTask P net config fileName uploadId f ([0..<n] ! i) i w0 =
        (Inr (parts ! i), w1)"
    by simp_all
  have part: "PartNumber (parts ! i) = i + 1 \<and>
      (\<exists>w0 w1. retryDefault (uploadPart P net config fileName uploadId (i + 1) (partChunk f i)) w0 =
           (Inr (ETag (parts ! i)), w1))" if "i < n" for i
  proof -
    from each that obtain w0 w1 where
      "uploadPartTask P net config fileName uploadId f i i w0 = (Inr (parts ! i), w1)"
      by auto
    from uploadPartTask_success[OF this] show ?thesis by blast
  qed
  show numbers: "map PartNumber parts = [1..<Suc n]"
  proof (rule nth_equalityI)
    show "length (map PartNumber parts) = length [1..<Suc n]"
      using len by simp
    fix i assume "i < length (map PartNumber parts)"
    with len have i: "i < n" by simp
    with part[OF i] len show "map PartNumber parts ! i = [1..<Suc n] ! i"
      by (simp add: nth_upt del: upt_Suc)
  qed
  show "\<forall>i<n. \<exists>w0 w1. retryDefault (uploadPart P net config fileName uploadId (i + 1) (partChunk f i)) w0 =
           (Inr (ETag (parts ! i)), w1)"
    using part by blast
  have "sorted (map PartNumber parts)"
    unfolding numbers by (rule sorted_upt)
  then show "sort_key PartNumber parts = parts"
    by (rule sort_key_id_if_sorted)
qed

lemma join_empty: "join [] xs = concat xs"
proof (induction xs)
  case Nil
  show ?case by simp
next
  case (Cons x xs)
  then show ?case by (cases xs) simp_all
qed

lemma completeXmlBody_listing:
  assumes "map PartNumber parts = [1..<Suc n]"
  shows "completeXmlBody parts =
     nl @ ''    <CompleteMultipartUpload xmlns='' @ dq @ ''http://s3.amazonaws.com/doc/2006-03-01/'' @ dq @
     ''>'' @ nl @ ''      '' @
     concat (map (\<lambda>i. ''<Part><PartNumber>'' @ showNat (i + 1) @ ''</PartNumber><ETag>'' @
                      ETag (parts ! i) @ ''</ETag></Part>'') [0..<n]) @
     nl @ ''    </CompleteMultipartUpload>'' @ nl @ ''  ''"
proof -
  have "length (map PartNumber parts) = length [1..<Suc n]"
    using assms by simp
  then have len: "length parts = n"
    by (simp del: upt_Suc)
  have "map partXml parts = map (\<lambda>i. ''<Part><PartNumber>'' @ showNat (i + 1) @ ''</PartNumber><ETag>'' @
                      ETag (parts ! i) @ ''</ETag></Part>'') [0..<n]"
  proof (rule nth_equalityI)
    show "length (map partXml parts) = length (map (\<lambda>i. ''<Part><PartNumber>'' @ showNat (i + 1) @
        ''</PartNumber><ETag>'' @ ETag (parts ! i) @ ''</ETag></Part>'') [0..<n])"
      using len by simp
    fix i assume "i < length (map partXml parts)"
    with len have i: "i < n" by simp
    have "map PartNumber parts ! i = [1..<Suc n] ! i"
      using assms by simp
    with i len have "PartNumber (parts ! i) = i + 1"
      by (simp add: nth_upt del: upt_Suc)
    with i len show "map partXml parts ! i = map (\<lambda>i. ''<Part><PartNumber>'' @ showNat (i + 1) @
        ''</PartNumber><ETag>'' @ ETag (parts ! i) @ ''</ETag></Part>'') [0..<n] ! i"
      by (simp add: partXml_def)
  qed
  then show ?thesis
    by (simp add: completeXmlBody_def join_empty)
qed


lemma asyncPoolLoop_success:
  "(\<And>x i w. \<exists>r w1. fn x i w = (Inr r, w1)) \<Longrightarrow>
   \<exists>rs w'. asyncPoolLoop concurrency items fn pick index executing results w = (Inr rs, w')"
proof (induction concurrency items fn pick index executing results w rule: asyncPoolLoop.induct)
  case (1 concurrency items fn pick index executing results w)
  note good = "1.prems"
  show ?case
  proof (cases "index < length items")
    case True
    let ?ex = "executing @ [index]"
    show ?thesis
    proof (cases "concurrency \<le> length ?ex")
      case full: True
      let ?i = "chosen pick ?ex"
      from good[of "items ! ?i" ?i w] obtain v w1 where run: "fn (items ! ?i) ?i w = (Inr v, w1)"
        by blast
      from asyncPoolLoop_launch_settle[where fn = fn and pick = pick and w = w
          and results = results, OF True full run]
        "1.IH"(1)[OF True refl full refl run[symmetric] refl good]
      show ?thesis by simp
    next
      case notfull: False
      from "1.IH"(2)[OF True refl notfull good]
        asyncPoolLoop_launch[OF True notfull, where fn = fn and pick = pick
          and results = results and w = w]
      show ?thesis by simp
    qed
  next
    case False
    show ?thesis
    proof (cases "executing = []")
      case True
      with asyncPoolLoop_done[OF False, where concurrency = concurrency and fn = fn
          and pick = pick and results = results and w = w]
      show ?thesis by simp
    next
      case nonempty: False
      let ?i = "chosen pick executing"
      from good[of "items ! ?i" ?i w] obtain v w1 where run: "fn (items ! ?i) ?i w = (Inr v, w1)"
        by blast
      from asyncPoolLoop_drain[where fn = fn and pick = pick and w = w
          and results = results and concurrency = concurrency, OF False nonempty run]
        "1.IH"(3)[OF False nonempty refl run[symmetric] refl good]
      show ?thesis by simp
    qed
  qed
qed

lemma uploadAllParts_completion:
  assumes "asyncPool MAX_CONCURRENT_PARTS [0..<totalPartsOf (file_size f)]
      (uploadPartTask P net config fileName uploadId f) pick w = (Inr parts, w')"
  shows "\<exists>req rest. sent (snd (uploadAllParts P net pick config fileName uploadId f w)) = sent w' @ req # rest \<and>
      reqMethod req = ''POST'' \<and>
      reqUrl req = ''https://'' @ endpointHost config @ ''/'' @ bucketName config @ ''/'' @ fileName @
           ''?uploadId='' @ uploadId \<and>
      reqBody req = Some (Text (completeXmlBody parts))"
proof -
  let ?complete = "completeMultipartUpload P net config fileName uploadId parts"
  from pool_parts(3)[OF assms] assms
  have unf: "uploadAllParts P net pick config fileName uploadId f w = retryDefault ?complete w'"
    by (simp add: uploadAllParts_def Let_def)
  from completeMultipartUpload_sent[of P net config fileName uploadId parts w']
  obtain req where req: "sent (snd (?complete w')) = sent w' @ [req]" "reqMethod req = ''POST''"
    "reqUrl req = ''https://'' @ endpointHost config @ ''/'' @ bucketName config @ ''/'' @ fileName @
           ''?uploadId='' @ uploadId"
    "reqBody req = Some (Text (completeXmlBody parts))"
    by blast
  have "adds (\<lambda>r. True) ?complete"
    by (rule adds_weaken[OF adds_completeMultipartUpload]) simp
  from retry_first[OF this req(1), of 3 1000 2]
  obtain rest where "sent (snd (retryDefault ?complete w')) = sent w' @ req # rest"
    unfolding retryDefault_def by blast
  with unf req show ?thesis by auto
qed


text \<open>
  Claim C5. For a file of \<open>S > 0\<close> bytes the number of parts \<open>N\<close> is the ceiling of
  \<open>S / PART_SIZE\<close> with \<open>PART_SIZE\<close> 10 MB; every part before the last is a slice of
  exactly \<open>PART_SIZE\<close> bytes and the last has the \<open>S - PART_SIZE * (N - 1)\<close> bytes
  that remain. Whatever the order in which the pool's tasks settle (any scheduler
  \<open>pick\<close>), when all parts succeed the pool returns them by index: part numbers
  \<open>1 .. N\<close>, each with the ETag its own upload returned; sorting changes nothing, and the
  body of the completion request lists exactly these \<open>N\<close> parts in ascending order.
\<close>

theorem multipart_parts:
  assumes "0 < file_size f"
  shows "let S = file_size f; N = totalPartsOf S in
     PART_SIZE = 10 * 1024 * 1024 \<and>
     N = nat \<lceil>real S / real PART_SIZE\<rceil> \<and> PART_SIZE * (N - 1) < S \<and> S \<le> PART_SIZE * N \<and>
     (\<forall>i < N - 1. length (partChunk f i) = PART_SIZE) \<and>
     length (partChunk f (N - 1)) = S - PART_SIZE * (N - 1) \<and>
     (\<forall>parts w'.
        asyncPool MAX_CONCURRENT_PARTS [0..<N] (uploadPartTask P net config fileName uploadId f) pick w =
          (Inr parts, w') \<longrightarrow>
        map PartNumber parts = [1..<Suc N] \<and>
        (\<forall>i < N. \<exists>w0 w1.
           retryDefault (uploadPart P net config fileName uploadId (i + 1) (partChunk f i)) w0 =
             (Inr (ETag (parts ! i)), w1)) \<and>
        (\<exists>req rest.
           sent (snd (uploadAllParts P net pick config fileName uploadId f w)) = sent w' @ req # rest \<and>
           reqMethod req = ''POST'' \<and>
           reqBody req = Some (Text
             (nl @ ''    <CompleteMultipartUpload xmlns='' @ dq @
              ''http://s3.amazonaws.com/doc/2006-03-01/'' @ dq @ ''>'' @ nl @ ''      '' @
              concat (map (\<lambda>i. ''<Part><PartNumber>'' @ showNat (i + 1) @ ''</PartNumber><ETag>'' @
                               ETag (parts ! i) @ ''</ETag></Part>'') [0..<N]) @
              nl @ ''    </CompleteMultipartUpload>'' @ nl @ ''  ''))))"
proof -
  define N where "N = totalPartsOf (file_size f)"
  have pool: "map PartNumber parts = [1..<Suc N] \<and>
        (\<forall>i < N. \<exists>w0 w1.
           retryDefault (uploadPart P net config fileName uploadId (i + 1) (partChunk f i)) w0 =
             (Inr (ETag (parts ! i)), w1)) \<and>
        (\<exists>req rest.
           sent (snd (uploadAllParts P net pick config fileName uploadId f w)) = sent w' @ req # rest \<and>
           reqMethod req = ''POST'' \<and>
           reqBody req = Some (Text
             (nl @ ''    <CompleteMultipartUpload xmlns='' @ dq @
              ''http://s3.amazonaws.com/doc/2006-03-01/'' @ dq @ ''>'' @ nl @ ''      '' @
              concat (map (\<lambda>i. ''<Part><PartNumber>'' @ showNat (i + 1) @ ''</PartNumber><ETag>'' @
                               ETag (parts ! i) @ ''</ETag></Part>'') [0..<N]) @
              nl @ ''    </CompleteMultipartUpload>'' @ nl @ ''  '')))"
    if run: "asyncPool MAX_CONCURRENT_PARTS [0..<N] (uploadPartTask P net config fileName uploadId f) pick w =
          (Inr parts, w')" for parts w'
  proof -
    note numbers = pool_parts(1)[OF run] and etags = pool_parts(2)[OF run]
    from uploadAllParts_completion[OF run[unfolded N_def]]
    obtain req rest where
      "sent (snd (uploadAllParts P net pick config fileName uploadId f w)) = sent w' @ req # rest"
      "reqMethod req = ''POST''" "reqBody req = Some (Text (completeXmlBody parts))"
      by blast
    with completeXmlBody_listing[OF numbers] numbers etags show ?thesis
      by (simp only:) blast
  qed
  have "PART_SIZE = 10 * 1024 * 1024"
    by (simp add: PART_SIZE_def)
  moreover have "N = nat \<lceil>real (file_size f) / real PART_SIZE\<rceil>"
    by (simp add: N_def totalPartsOf_def)
  moreover note totalPartsOf_bounds(1,2)[OF assms, folded N_def]
    length_partChunk(2)[OF assms, folded N_def]
  moreover have "\<forall>i < N - 1. length (partChunk f i) = PART_SIZE"
    using length_partChunk(1)[OF assms] by (simp add: N_def)
  ultimately show ?thesis
    unfolding Let_def N_def[symmetric] using pool by blast
qed


lemma accepting_part:
  "\<exists>r w1. uploadPartTask P acceptingNetwork config fileName uploadId f i index w = (Inr r, w1)"
proof -
  let ?up = "uploadPart P acceptingNetwork config fileName uploadId (i + 1) (partChunk f i)"
  from uploadPart_sent[of P acceptingNetwork config fileName uploadId "i + 1" "partChunk f i" w]
  have "fst (?up w) = Inr ''etag''"
    by (auto simp: acceptingNetwork_def)
  then have "?up w = (Inr ''etag'', snd (?up w))"
    by (metis prod.collapse)
  then have "retryDefault ?up w = (Inr ''etag'', snd (?up w))"
    unfolding retryDefault_def by (rule retry_success[where fn = ?up and w = w])
  then show ?thesis
    by (simp add: uploadPartTask_def Let_def)
qed

lemma upt_1_12: "[1..<Suc 11] = [1, 2, 3, 4, 5, 6, 7, 8, 9, 10, 11]"
  by (simp add: upt_rec)

theorem multipart_parts_witness:
  "totalPartsOf (file_size sampleBigFile) = 11 \<and>
   length (partChunk sampleBigFile 0) = 10485760 \<and>
   length (partChunk sampleBigFile 10) = 1 \<and>
   (\<exists>parts w'.
      asyncPool MAX_CONCURRENT_PARTS [0..<11]
        (uploadPartTask samplePlatform acceptingNetwork sampleConfig ''big.bin'' ''upload-1'' sampleBigFile)
        (\<lambda>executing. 1) initialWorld = (Inr parts, w') \<and>
      map PartNumber parts = [1, 2, 3, 4, 5, 6, 7, 8, 9, 10, 11])"
proof -
  have size: "file_size sampleBigFile = 104857601"
    by (simp add: sampleBigFile_def file_size_def)
  have n: "totalPartsOf (file_size sampleBigFile) = 11"
    by (simp add: size totalPartsOf_sample)
  have pos: "0 < file_size sampleBigFile"
    by (simp add: size)
  from asyncPoolLoop_success[of "uploadPartTask samplePlatform acceptingNetwork sampleConfig ''big.bin''
      ''upload-1'' sampleBigFile" MAX_CONCURRENT_PARTS "[0..<11]" "\<lambda>executing. 1" 0 "[]"
      "replicate (length [0..<11]) None" initialWorld, OF accepting_part]
  obtain parts w' where run: "asyncPool MAX_CONCURRENT_PARTS [0..<11]
        (uploadPartTask samplePlatform acceptingNetwork sampleConfig ''big.bin'' ''upload-1'' sampleBigFile)
        (\<lambda>executing. 1) initialWorld = (Inr parts, w')"
    unfolding asyncPool_def by blast
  note inst = multipart_parts[OF pos, of samplePlatform acceptingNetwork sampleConfig "''big.bin''"
      "''upload-1''" "\<lambda>executing. 1" initialWorld, unfolded Let_def size totalPartsOf_sample(1)]
  from inst have "\<forall>i < 11 - 1. length (partChunk sampleBigFile i) = PART_SIZE"
    by blast
  then have first: "length (partChunk sampleBigFile 0) = 10485760"
    by (simp add: PART_SIZE_def)
  from inst have "length (partChunk sampleBigFile (11 - 1)) = 104857601 - PART_SIZE * (11 - 1)"
    by blast
  then have last: "length (partChunk sampleBigFile 10) = 1"
    by (simp add: PART_SIZE_def)
  from inst run have "map PartNumber parts = [1..<Suc 11]"
    by blast
  then have numbers: "map PartNumber parts = [1, 2, 3, 4, 5, 6, 7, 8, 9, 10, 11]"
    by (simp only: upt_1_12)
  show ?thesis
    by (intro conjI exI[of _ parts] exI[of _ w']) (rule n first last run numbers)+
qed

section \<open>Properties of the object key\<close>

lemma hexDigitUpper_safe: "d < 16 \<Longrightarrow> urlSafeChar (hexDigitUpper d)"
proof -
  assume "d < 16"
  then have "d < 10 \<or> (10 \<le> d \<and> d < 16)" by auto
  then show ?thesis
  proof
    assume "d < 10"
    then have "(of_char (char_of (48 + d)) :: nat) = 48 + d"
      by (simp add: of_char_of)
    with \<open>d < 10\<close> show ?thesis by (simp add: urlSafeChar_def hexDigitUpper_def)
  next
    assume d: "10 \<le> d \<and> d < 16"
    then have "(of_char (char_of (55 + d)) :: nat) = 55 + d"
      by (simp add: of_char_of)
    with d show ?thesis by (simp add: urlSafeChar_def hexDigitUpper_def)
  qed
qed

lemma percentByte_safe: "list_all urlSafeChar (percentByte b)"
proof -
  have "unat b < 2 ^ LENGTH(8)" by (rule unsigned_less)
  then have "unat b < 256" by simp
  then have "unat b div 16 < 16" by simp
  moreover have "unat b mod 16 < 16" by simp
  ultimately show ?thesis
    by (simp add: percentByte_def hexDigitUpper_safe) (simp add: urlSafeChar_def)
qed

lemma utf8_nonempty: "utf8 v \<noteq> []"
  by (simp add: utf8_def)

lemma percentEncode_safe: "list_all urlSafeChar (percentEncode v)"
  by (simp add: percentEncode_def list_all_iff) (use percentByte_safe in \<open>auto simp: list_all_iff\<close>)

lemma percentEncode_ends:
  "percentEncode v \<noteq> []" "hd (percentEncode v) = CHR ''%''"
  "last (percentEncode v) \<noteq> CHR ''.''" "last (percentEncode v) \<noteq> CHR ''-''"
proof -
  obtain b bs where u: "utf8 v = b # bs" using utf8_nonempty[of v] by (cases "utf8 v") auto
  then show "percentEncode v \<noteq> []" "hd (percentEncode v) = CHR ''%''"
    by (simp_all add: percentEncode_def percentByte_def)
  obtain bs' b' where u': "utf8 v = bs' @ [b']" using utf8_nonempty[of v] by (metis rev_exhaust)
  have "unat b' mod 16 < 16" by simp
  from hexDigitUpper_safe[OF this] have "urlSafeChar (hexDigitUpper (unat b' mod 16))" .
  moreover have "last (percentEncode v) = hexDigitUpper (unat b' mod 16)"
    by (simp add: percentEncode_def u' percentByte_def)
  moreover have "hexDigitUpper (unat b' mod 16) \<noteq> CHR ''.''" "hexDigitUpper (unat b' mod 16) \<noteq> CHR ''-''"
  proof -
    have "unat b' mod 16 < 10 \<or> 10 \<le> unat b' mod 16" by auto
    then have n: "(of_char (hexDigitUpper (unat b' mod 16)) :: nat) \<ge> 48"
      by (auto simp: hexDigitUpper_def of_char_of)
    show "hexDigitUpper (unat b' mod 16) \<noteq> CHR ''.''" "hexDigitUpper (unat b' mod 16) \<noteq> CHR ''-''"
      using n by auto
  qed
  ultimately show "last (percentEncode v) \<noteq> CHR ''.''" "last (percentEncode v) \<noteq> CHR ''-''"
    by simp_all
qed


lemma prepend_Inr: "prepend s r = Inr key \<Longrightarrow> \<exists>t. r = Inr t \<and> key = s @ t"
  by (cases r) (simp_all add: prepend_def)

lemma unreserved_code:
  assumes "uriUnreserved c"
  shows "(of_char (char_of (unat c)) :: nat) = unat c" and "\<not> isHighSurrogate c" and "\<not> isLowSurrogate c"
    and "\<not> isWhiteSpace c"
proof -
  from assms have "unat c < 256"
    by (auto simp: uriUnreserved_def Let_def)
  then show "(of_char (char_of (unat c)) :: nat) = unat c"
    by (simp add: of_char_of)
  from assms show "\<not> isHighSurrogate c" "\<not> isLowSurrogate c" "\<not> isWhiteSpace c"
    by (auto simp: uriUnreserved_def isHighSurrogate_def isLowSurrogate_def isWhiteSpace_def Let_def)
qed

lemma unreserved_safe:
  assumes "uriUnreserved c" and "\<not> isUnsafe c"
  shows "urlSafeChar (char_of (unat c))"
  using assms unreserved_code(1)[OF assms(1)]
  by (auto simp: urlSafeChar_def uriUnreserved_def isUnsafe_def Let_def)

lemma unreserved_dot_hyphen:
  assumes "uriUnreserved c" and "\<not> isDotOrHyphen c"
  shows "char_of (unat c) \<noteq> CHR ''.''" and "char_of (unat c) \<noteq> CHR ''-''"
proof -
  have "unat c \<noteq> 0x2E" "unat c \<noteq> 0x2D"
    using assms(2) by (auto simp: isDotOrHyphen_def word_unat_eq_iff)
  moreover note e = unreserved_code(1)[OF assms(1)]
  moreover have "char_of (unat c) = CHR ''.'' \<Longrightarrow> (of_char (char_of (unat c)) :: nat) = 0x2E"
    "char_of (unat c) = CHR ''-'' \<Longrightarrow> (of_char (char_of (unat c)) :: nat) = 0x2D"
    by simp_all
  ultimately show "char_of (unat c) \<noteq> CHR ''.''" "char_of (unat c) \<noteq> CHR ''-''"
    by (metis, metis)
qed

lemma encodeURIComponent_safe:
  "encodeURIComponent xs = Inr key \<Longrightarrow> \<forall>c \<in> set xs. \<not> isUnsafe c \<Longrightarrow> list_all urlSafeChar key"
proof (induction xs arbitrary: key rule: encodeURIComponent.induct)
  case 1
  then show ?case by simp
next
  case (2 c)
  then show ?case
    by (auto simp: unreserved_safe percentEncode_safe split: if_splits)
next
  case (3 c d ds)
  show ?case
  proof (cases "uriUnreserved c")
    case True
    with "3.prems"(1) obtain t where t: "encodeURIComponent (d # ds) = Inr t" "key = [char_of (unat c)] @ t"
      by (auto dest: prepend_Inr)
    with "3.IH"(1)[OF True t(1)] "3.prems"(2) True show ?thesis
      by (simp add: unreserved_safe)
  next
    case False
    show ?thesis
    proof (cases "isHighSurrogate c")
      case high: True
      with False "3.prems"(1) have low: "\<not> isLowSurrogate c" "isLowSurrogate d"
        by (auto split: if_splits)
      with False high "3.prems"(1) obtain t where t: "encodeURIComponent ds = Inr t"
        "key = percentEncode (surrogatePair c d) @ t"
        by (auto dest: prepend_Inr)
      with "3.IH"(3)[OF False low(1) _ _ t(1)] high low "3.prems"(2) show ?thesis
        by (simp add: percentEncode_safe)
    next
      case nothigh: False
      with False "3.prems"(1) have low: "\<not> isLowSurrogate c"
        by (auto split: if_splits)
      with False nothigh "3.prems"(1) obtain t where t: "encodeURIComponent (d # ds) = Inr t"
        "key = percentEncode (unat c) @ t"
        by (auto dest: prepend_Inr)
      with "3.IH"(2)[OF False low nothigh t(1)] "3.prems"(2) show ?thesis
        by (simp add: percentEncode_safe)
    qed
  qed
qed

lemma encodeURIComponent_wellFormed:
  "wellFormed xs \<Longrightarrow> \<exists>key. encodeURIComponent xs = Inr key"
proof (induction xs rule: encodeURIComponent.induct)
  case 1
  show ?case by simp
next
  case (2 c)
  then show ?case by simp
next
  case (3 c d ds)
  show ?case
  proof (cases "uriUnreserved c")
    case True
    with "3.prems" unreserved_code(2)[OF True] have "wellFormed (d # ds)" by simp
    from "3.IH"(1)[OF True this] True show ?thesis by (auto simp: prepend_def)
  next
    case False
    show ?thesis
    proof (cases "isHighSurrogate c")
      case high: True
      then have nl: "\<not> isLowSurrogate c"
        by (auto simp: isHighSurrogate_def isLowSurrogate_def)
      from "3.prems" high have d: "isLowSurrogate d" "wellFormed ds" by simp_all
      from "3.IH"(3)[OF False nl _ _ d(2)] high d(1) False nl show ?thesis
        by (auto simp: prepend_def)
    next
      case nothigh: False
      with "3.prems" have nl: "\<not> isLowSurrogate c" and wf: "wellFormed (d # ds)" by simp_all
      from "3.IH"(2)[OF False nl nothigh wf] False nl nothigh show ?thesis
        by (auto simp: prepend_def)
    qed
  qed
qed


lemma encodeURIComponent_hd:
  assumes "encodeURIComponent xs = Inr key" and "xs \<noteq> []" and "\<not> isDotOrHyphen (hd xs)"
  shows "key \<noteq> [] \<and> hd key \<noteq> CHR ''.'' \<and> hd key \<noteq> CHR ''-''"
proof (cases xs rule: encodeURIComponent.cases)
  case 1
  with assms show ?thesis by simp
next
  case (2 c)
  with assms show ?thesis
    by (auto simp: unreserved_dot_hyphen percentEncode_ends split: if_splits)
next
  case (3 c d ds)
  with assms show ?thesis
    by (auto simp: unreserved_dot_hyphen percentEncode_ends split: if_splits dest!: prepend_Inr)
qed

lemma encodeURIComponent_last:
  "encodeURIComponent xs = Inr key \<Longrightarrow> xs \<noteq> [] \<Longrightarrow> \<not> isDotOrHyphen (last xs) \<Longrightarrow>
     key \<noteq> [] \<and> last key \<noteq> CHR ''.'' \<and> last key \<noteq> CHR ''-''"
proof (induction xs arbitrary: key rule: encodeURIComponent.induct)
  case 1
  then show ?case by simp
next
  case (2 c)
  then show ?case
    by (auto simp: unreserved_dot_hyphen percentEncode_ends split: if_splits)
next
  case (3 c d ds)
  show ?case
  proof (cases "uriUnreserved c")
    case True
    with "3.prems"(1) obtain t where t: "encodeURIComponent (d # ds) = Inr t" "key = [char_of (unat c)] @ t"
      by (auto dest: prepend_Inr)
    from "3.IH"(1)[OF True t(1)] "3.prems"(3) t(2) show ?thesis
      by simp
  next
    case False
    show ?thesis
    proof (cases "isHighSurrogate c")
      case high: True
      with False "3.prems"(1) have low: "\<not> isLowSurrogate c" "isLowSurrogate d"
        by (auto split: if_splits)
      with False high "3.prems"(1) obtain t where t: "encodeURIComponent ds = Inr t"
        "key = percentEncode (surrogatePair c d) @ t"
        by (auto dest: prepend_Inr)
      show ?thesis
      proof (cases "ds = []")
        case True
        with t show ?thesis by (simp add: percentEncode_ends)
      next
        case ne: False
        with "3.IH"(3)[OF False low(1) _ _ t(1) ne] high low "3.prems"(3) t(2) show ?thesis
          by simp
      qed
    next
      case nothigh: False
      with False "3.prems"(1) have low: "\<not> isLowSurrogate c"
        by (auto split: if_splits)
      with False nothigh "3.prems"(1) obtain t where t: "encodeURIComponent (d # ds) = Inr t"
        "key = percentEncode (unat c) @ t"
        by (auto dest: prepend_Inr)
      with "3.IH"(2)[OF False low nothigh t(1)] "3.prems"(3) show ?thesis
        by simp
    qed
  qed
qed

lemma set_squeeze: "set (squeeze p x xs) \<subseteq> insert x {c \<in> set xs. \<not> p c}"
  by (induction p x xs rule: squeeze.induct) auto

lemma squeeze_eq_Nil: "squeeze p x xs = [] \<longleftrightarrow> xs = []"
  by (induction p x xs rule: squeeze.induct) auto

lemma wellFormed_Cons:
  "\<not> isHighSurrogate c \<Longrightarrow> \<not> isLowSurrogate c \<Longrightarrow> wellFormed (c # xs) = wellFormed xs"
  by (cases xs) simp_all

lemma wellFormed_tail:
  "wellFormed (c # xs) \<Longrightarrow> \<not> isHighSurrogate c \<Longrightarrow> wellFormed xs"
  by (cases xs) simp_all

lemma wellFormed_snoc:
  "\<not> isHighSurrogate c \<Longrightarrow> \<not> isLowSurrogate c \<Longrightarrow> wellFormed (xs @ [c]) = wellFormed xs"
  by (induction xs rule: wellFormed.induct) auto

lemma squeeze_keep: "\<not> p d \<Longrightarrow> squeeze p x (d # ds) = d # squeeze p x ds"
  by (cases ds) simp_all

lemma surrogate_disjoint: "isHighSurrogate c \<Longrightarrow> \<not> isLowSurrogate c"
  by (simp add: isHighSurrogate_def isLowSurrogate_def)

lemma wellFormed_squeeze:
  "wellFormed xs \<Longrightarrow> \<not> isHighSurrogate x \<Longrightarrow> \<not> isLowSurrogate x \<Longrightarrow>
     (\<And>c. p c \<Longrightarrow> \<not> isHighSurrogate c \<and> \<not> isLowSurrogate c) \<Longrightarrow> wellFormed (squeeze p x xs)"
proof (induction xs rule: wellFormed.induct)
  case 1
  show ?case by simp
next
  case (2 c)
  then show ?case by simp
next
  case (3 c d ds)
  show ?case
  proof (cases "isHighSurrogate c")
    case True
    with "3.prems"(1) have d: "isLowSurrogate d" "wellFormed ds" by simp_all
    from True "3.prems"(4) have npc: "\<not> p c" by auto
    from d(1) "3.prems"(4) have npd: "\<not> p d" by auto
    have "squeeze p x (c # d # ds) = c # d # squeeze p x ds"
      using npc npd by (simp add: squeeze_keep)
    with "3.IH"(1)[OF True d(2) "3.prems"(2,3,4)] True d(1) show ?thesis by simp
  next
    case False
    with "3.prems"(1) have c: "\<not> isLowSurrogate c" and wf: "wellFormed (d # ds)" by simp_all
    note ih = "3.IH"(2)[OF False wf "3.prems"(2,3,4)]
    show ?thesis
    proof (cases "p c")
      case True
      with ih "3.prems"(2,3) show ?thesis by (simp add: wellFormed_Cons)
    next
      case npc: False
      with ih False c show ?thesis by (simp add: wellFormed_Cons)
    qed
  qed
qed

lemma wellFormed_filter:
  "wellFormed xs \<Longrightarrow> (\<And>c. \<not> q c \<Longrightarrow> \<not> isHighSurrogate c \<and> \<not> isLowSurrogate c) \<Longrightarrow>
     wellFormed (filter q xs)"
proof (induction xs rule: wellFormed.induct)
  case 1
  show ?case by simp
next
  case (2 c)
  then show ?case by simp
next
  case (3 c d ds)
  show ?case
  proof (cases "isHighSurrogate c")
    case True
    with "3.prems"(1) have d: "isLowSurrogate d" "wellFormed ds" by simp_all
    from True "3.prems"(2) have qc: "q c" by auto
    from d(1) "3.prems"(2) have qd: "q d" by auto
    from "3.IH"(1)[OF True d(2) "3.prems"(2)] True d(1) qc qd show ?thesis by simp
  next
    case False
    with "3.prems"(1) have c: "\<not> isLowSurrogate c" and wf: "wellFormed (d # ds)" by simp_all
    from "3.IH"(2)[OF False wf "3.prems"(2)] have "wellFormed (filter q (d # ds))" .
    with False c show ?thesis by (simp add: wellFormed_Cons)
  qed
qed

lemma wellFormed_dropWhile:
  "wellFormed xs \<Longrightarrow> (\<And>c. p c \<Longrightarrow> \<not> isHighSurrogate c \<and> \<not> isLowSurrogate c) \<Longrightarrow>
     wellFormed (dropWhile p xs)"
proof (induction xs)
  case Nil
  show ?case by simp
next
  case (Cons c xs)
  show ?case
  proof (cases "p c")
    case True
    with Cons.prems(2) have "\<not> isHighSurrogate c" "\<not> isLowSurrogate c" by auto
    with Cons.prems(1) have "wellFormed xs" by (simp add: wellFormed_Cons)
    from Cons.IH[OF this Cons.prems(2)] True show ?thesis by simp
  next
    case False
    with Cons.prems(1) show ?thesis by simp
  qed
qed

lemma wellFormed_dropEnd:
  "wellFormed xs \<Longrightarrow> (\<And>c. p c \<Longrightarrow> \<not> isHighSurrogate c \<and> \<not> isLowSurrogate c) \<Longrightarrow>
     wellFormed (rev (dropWhile p (rev xs)))"
proof (induction xs rule: rev_induct)
  case Nil
  show ?case by simp
next
  case (snoc c xs)
  show ?case
  proof (cases "p c")
    case True
    with snoc.prems(2) have "\<not> isHighSurrogate c" "\<not> isLowSurrogate c" by auto
    with snoc.prems(1) have "wellFormed xs" by (simp add: wellFormed_snoc)
    from snoc.IH[OF this snoc.prems(2)] True show ?thesis by simp
  next
    case False
    with snoc.prems(1) show ?thesis by simp
  qed
qed

lemma hd_dropEnd:
  "rev (dropWhile p (rev xs)) \<noteq> [] \<Longrightarrow> hd (rev (dropWhile p (rev xs))) = hd xs"
proof (induction xs rule: rev_induct)
  case Nil
  then show ?case by simp
next
  case (snoc c xs)
  show ?case
  proof (cases "p c")
    case True
    with snoc.prems have ne: "rev (dropWhile p (rev xs)) \<noteq> []" by simp
    then have "xs \<noteq> []" by auto
    with snoc.IH[OF ne] True show ?thesis by simp
  next
    case False
    then show ?thesis by simp
  qed
qed

lemma trim_ends:
  assumes "rev (dropWhile p (rev (dropWhile p xs))) \<noteq> []"
  shows "\<not> p (hd (rev (dropWhile p (rev (dropWhile p xs)))))"
    and "\<not> p (last (rev (dropWhile p (rev (dropWhile p xs)))))"
proof -
  have "dropWhile p xs = [] \<Longrightarrow> rev (dropWhile p (rev (dropWhile p xs))) = []"
    by (simp only: rev.simps dropWhile.simps)
  with assms have ne: "dropWhile p xs \<noteq> []" by blast
  from hd_dropEnd[OF assms] hd_dropWhile[OF ne]
  show "\<not> p (hd (rev (dropWhile p (rev (dropWhile p xs)))))" by simp
  from assms have "dropWhile p (rev (dropWhile p xs)) \<noteq> []" by simp
  from hd_dropWhile[OF this] this
  show "\<not> p (last (rev (dropWhile p (rev (dropWhile p xs)))))"
    by (simp add: last_rev)
qed

lemma set_trim: "set (rev (dropWhile p (rev (dropWhile p xs)))) \<subseteq> set xs"
proof -
  have "set (rev (dropWhile p (rev (dropWhile p xs)))) \<subseteq> set (dropWhile p xs)"
    using set_dropWhileD[of _ p "rev (dropWhile p xs)"] by auto
  also have "\<dots> \<subseteq> set xs"
    using set_dropWhileD[of _ p xs] by auto
  finally show ?thesis .
qed

lemma whiteSpace_not_surrogate: "isWhiteSpace c \<Longrightarrow> \<not> isHighSurrogate c \<and> \<not> isLowSurrogate c"
  by (auto simp: isWhiteSpace_def isHighSurrogate_def isLowSurrogate_def Let_def)

lemma unsafe_not_surrogate: "isUnsafe c \<Longrightarrow> \<not> isHighSurrogate c \<and> \<not> isLowSurrogate c"
  by (auto simp: isUnsafe_def isHighSurrogate_def isLowSurrogate_def Let_def)

lemma dotOrHyphen_not_surrogate: "isDotOrHyphen c \<Longrightarrow> \<not> isHighSurrogate c \<and> \<not> isLowSurrogate c"
  by (auto simp: isDotOrHyphen_def isHighSurrogate_def isLowSurrogate_def)

lemma dotOrHyphen_not_unsafe: "isDotOrHyphen c \<Longrightarrow> \<not> isUnsafe c"
  by (auto simp: isDotOrHyphen_def isUnsafe_def)

lemma urlSafe_not_forbidden: "urlSafeChar k \<Longrightarrow> \<not> forbiddenChar k"
  by (auto simp: urlSafeChar_def forbiddenChar_def Let_def)

lemma unnamed_file: "encodeURIComponent (units ''unnamed-file'') = Inr ''unnamed-file''"
  by (simp add: uri_eval)

lemma set_cleaned: "set (cleaned fileName) \<subseteq> {c. \<not> isUnsafe c}"
proof -
  let ?safe = "filter (\<lambda>c. \<not> isUnsafe c) (squeeze isWhiteSpace 0x2D fileName)"
  have "\<not> isUnsafe (0x2E :: 16 word)" "\<not> isUnsafe (0x2D :: 16 word)"
    by (simp_all add: isUnsafe_def)
  moreover have "set ?safe \<subseteq> {c. \<not> isUnsafe c}" by auto
  ultimately show ?thesis
    unfolding cleaned_def
    using set_squeeze[of "\<lambda>c. c = 0x2D" "0x2D :: 16 word" "squeeze (\<lambda>c. c = 0x2E) 0x2E ?safe"]
      set_squeeze[of "\<lambda>c. c = 0x2E" "0x2E :: 16 word" ?safe]
    by blast
qed

lemma cleaned_all_dots:
  assumes "\<forall>c \<in> set fileName. isUnsafe c \<or> isWhiteSpace c \<or> isDotOrHyphen c"
  shows "set (cleaned fileName) \<subseteq> {c. isDotOrHyphen c}"
proof -
  let ?ns = "squeeze isWhiteSpace 0x2D fileName"
  let ?safe = "filter (\<lambda>c. \<not> isUnsafe c) ?ns"
  have d: "isDotOrHyphen (0x2E :: 16 word)" "isDotOrHyphen (0x2D :: 16 word)"
    by (simp_all add: isDotOrHyphen_def)
  have "set ?ns \<subseteq> {c. isUnsafe c \<or> isDotOrHyphen c}"
    using set_squeeze[of isWhiteSpace "0x2D :: 16 word" fileName] assms d by blast
  then have "set ?safe \<subseteq> {c. isDotOrHyphen c}" by auto
  then show ?thesis
    unfolding cleaned_def
    using set_squeeze[of "\<lambda>c. c = 0x2D" "0x2D :: 16 word" "squeeze (\<lambda>c. c = 0x2E) 0x2E ?safe"]
      set_squeeze[of "\<lambda>c. c = 0x2E" "0x2E :: 16 word" ?safe] d
    by blast
qed

lemma wellFormed_cleaned:
  assumes "wellFormed fileName"
  shows "wellFormed (cleaned fileName)"
proof -
  have h: "\<not> isHighSurrogate (0x2D :: 16 word)" "\<not> isLowSurrogate (0x2D :: 16 word)"
    "\<not> isHighSurrogate (0x2E :: 16 word)" "\<not> isLowSurrogate (0x2E :: 16 word)"
    by (simp_all add: isHighSurrogate_def isLowSurrogate_def)
  have "wellFormed (squeeze isWhiteSpace 0x2D fileName)"
    by (rule wellFormed_squeeze[OF assms h(1,2)]) (rule whiteSpace_not_surrogate)
  then have "wellFormed (filter (\<lambda>c. \<not> isUnsafe c) (squeeze isWhiteSpace 0x2D fileName))"
    by (rule wellFormed_filter) (use unsafe_not_surrogate in auto)
  then have "wellFormed (squeeze (\<lambda>c. c = 0x2E) 0x2E
       (filter (\<lambda>c. \<not> isUnsafe c) (squeeze isWhiteSpace 0x2D fileName)))"
    by (rule wellFormed_squeeze[OF _ h(3,4)]) (use h in auto)
  then show ?thesis
    unfolding cleaned_def
    by (rule wellFormed_squeeze[OF _ h(1,2)]) (use h in auto)
qed

lemma sanitizeFileName_cleaned:
  "sanitizeFileName fileName =
     (let trimmed = rev (dropWhile isDotOrHyphen (rev (dropWhile isDotOrHyphen (cleaned fileName))))
      in encodeURIComponent (if trimmed = [] then units ''unnamed-file'' else trimmed))"
  by (simp add: sanitizeFileName_def cleaned_def Let_def)

lemma sanitizeFileName_fallback:
  assumes "\<forall>c \<in> set fileName. isUnsafe c \<or> isWhiteSpace c \<or> isDotOrHyphen c"
  shows "sanitizeFileName fileName = Inr ''unnamed-file''"
proof -
  from cleaned_all_dots[OF assms] have "dropWhile isDotOrHyphen (cleaned fileName) = []"
    by auto
  then have t: "rev (dropWhile isDotOrHyphen (rev (dropWhile isDotOrHyphen (cleaned fileName)))) = []"
    by (simp only: rev.simps dropWhile.simps)
  show ?thesis
    unfolding sanitizeFileName_cleaned Let_def t by (simp add: unnamed_file)
qed

lemma sanitizeFileName_named:
  assumes wf: "wellFormed fileName"
    and ne: "rev (dropWhile isDotOrHyphen (rev (dropWhile isDotOrHyphen (cleaned fileName)))) \<noteq> []"
  shows "\<exists>key. sanitizeFileName fileName = Inr key \<and> key \<noteq> [] \<and> list_all urlSafeChar key \<and>
           hd key \<noteq> CHR ''.'' \<and> hd key \<noteq> CHR ''-'' \<and> last key \<noteq> CHR ''.'' \<and> last key \<noteq> CHR ''-''"
proof -
  let ?t = "rev (dropWhile isDotOrHyphen (rev (dropWhile isDotOrHyphen (cleaned fileName))))"
  have s: "sanitizeFileName fileName = encodeURIComponent ?t"
    unfolding sanitizeFileName_cleaned Let_def using ne by (simp only: if_False)
  have "wellFormed (dropWhile isDotOrHyphen (cleaned fileName))"
    by (rule wellFormed_dropWhile[OF wellFormed_cleaned[OF wf]]) (rule dotOrHyphen_not_surrogate)
  then have "wellFormed ?t"
    by (rule wellFormed_dropEnd) (rule dotOrHyphen_not_surrogate)
  from encodeURIComponent_wellFormed[OF this] obtain key where key: "encodeURIComponent ?t = Inr key"
    by blast
  have "\<forall>c \<in> set ?t. \<not> isUnsafe c"
    using set_trim[of isDotOrHyphen "cleaned fileName"] set_cleaned[of fileName] by blast
  from encodeURIComponent_safe[OF key this] have safe: "list_all urlSafeChar key" .
  from encodeURIComponent_hd[OF key ne trim_ends(1)[OF ne]]
  have h: "key \<noteq> [] \<and> hd key \<noteq> CHR ''.'' \<and> hd key \<noteq> CHR ''-''" .
  from encodeURIComponent_last[OF key ne trim_ends(2)[OF ne]]
  have l: "key \<noteq> [] \<and> last key \<noteq> CHR ''.'' \<and> last key \<noteq> CHR ''-''" .
  from s key safe h l show ?thesis by simp
qed

lemma unnamed_file_safe: "list_all urlSafeChar ''unnamed-file''"
  by (simp add: urlSafeChar_def)

text \<open>
  For a well-formed name the sanitizer returns a key: it is not empty, it is made of
  URL-safe characters only (so it holds no separator, colon, asterisk, question mark,
  quotation mark, angle bracket, bar, space or control character), and it neither starts
  nor ends with a dot or a hyphen. A name made of unsafe characters, white space, dots and
  hyphens only (the empty name among them) gives \<open>unnamed-file\<close>.
\<close>

lemma sanitizeFileName_wellFormed:
  assumes "wellFormed fileName"
  shows "\<exists>key. sanitizeFileName fileName = Inr key \<and> key \<noteq> [] \<and>
           list_all urlSafeChar key \<and> \<not> list_ex forbiddenChar key \<and>
           hd key \<noteq> CHR ''.'' \<and> hd key \<noteq> CHR ''-'' \<and> last key \<noteq> CHR ''.'' \<and> last key \<noteq> CHR ''-'' \<and>
           ((\<forall>c \<in> set fileName. isUnsafe c \<or> isWhiteSpace c \<or> isDotOrHyphen c) \<longrightarrow>
              key = ''unnamed-file'')"
proof (cases "rev (dropWhile isDotOrHyphen (rev (dropWhile isDotOrHyphen (cleaned fileName)))) = []")
  case True
  then have s: "sanitizeFileName fileName = Inr ''unnamed-file''"
    by (simp add: sanitizeFileName_cleaned Let_def unnamed_file)
  moreover have "\<not> list_ex forbiddenChar ''unnamed-file''"
    using unnamed_file_safe urlSafe_not_forbidden by (auto simp: list_all_iff list_ex_iff)
  ultimately show ?thesis
    using unnamed_file_safe by simp
next
  case False
  from sanitizeFileName_named[OF assms False] obtain key where
    key: "sanitizeFileName fileName = Inr key" "key \<noteq> []" "list_all urlSafeChar key"
      "hd key \<noteq> CHR ''.''" "hd key \<noteq> CHR ''-''" "last key \<noteq> CHR ''.''" "last key \<noteq> CHR ''-''"
    by blast
  from key(3) have "\<not> list_ex forbiddenChar key"
    using urlSafe_not_forbidden by (auto simp: list_all_iff list_ex_iff)
  moreover have "(\<forall>c \<in> set fileName. isUnsafe c \<or> isWhiteSpace c \<or> isDotOrHyphen c) \<longrightarrow>
              key = ''unnamed-file''"
    using sanitizeFileName_fallback[of fileName] key(1) by auto
  ultimately show ?thesis using key by simp
qed

lemma sanitizeFileName_examples:
  "sanitizeFileName (units ''a b/c..txt.'') = Inr ''a-bc.txt''"
  "sanitizeFileName (units ''/:'') = Inr ''unnamed-file''"
  "sanitizeFileName [] = Inr ''unnamed-file''"
  by (simp_all add: sanitize_eval)

text \<open>
  Claim C10. The key is not defined for every file name: a name that holds a surrogate
  without its partner (here the single code unit \<open>D800\<close>) passes the replacements
  unchanged and \<open>encodeURIComponent\<close> throws a URIError on it, so the sanitizer
  raises instead of returning a key.
\<close>

theorem sanitizeFileName_lone_surrogate:
  "sanitizeFileName [0xD800] = Inl (URIError ''URI malformed'')"
  by (simp add: sanitize_eval)

end
